theory Spec2Isabelle
  imports Main "HOL-Library.Signed_Division"
begin

section \<open>Data model (math2.h)\<close>

definition MAX_NODES :: nat where
  "MAX_NODES = 256"

definition MAX_LATEX :: nat where
  "MAX_LATEX = 1024"

datatype node_type =
    NODE_EMPTY | NODE_SEQUENCE | NODE_TEXT | NODE_FRACTION | NODE_EXPONENT
  | NODE_SUBSCRIPT | NODE_ROOT | NODE_NTHROOT | NODE_ABS | NODE_PAREN
  | NODE_FUNCTION | NODE_MIXED_FRAC

datatype text_type =
    TEXT_NUMBER | TEXT_VARIABLE | TEXT_OPERATOR | TEXT_PI
  | TEXT_PAREN_OPEN | TEXT_PAREN_CLOSE

text \<open>
  A pointer to a node is the index of its pool slot; \<open>None\<close> is the C null pointer.
\<close>

type_synonym ptr = "nat option"

text \<open>
  \<open>struct expr_node\<close>. The members of the union \<open>data\<close> are kept as separate fields
  named after the C member path (\<open>data.frac.numer\<close> is \<open>frac_numer\<close>): the source only
  reads the member that belongs to the node's \<open>type\<close>, and allocation zeroes the whole
  node before the type is set.
\<close>

record expr_node =
  type :: node_type
  parent :: ptr
  "next" :: ptr
  prev :: ptr
  seq_first :: ptr
  seq_last :: ptr
  text_subtype :: text_type
  text_text :: string
  frac_numer :: ptr
  frac_denom :: ptr
  exp_base :: ptr
  exp_power :: ptr
  subscript_base :: ptr
  subscript_sub :: ptr
  root_index :: int
  root_content :: ptr
  nthroot_index :: ptr
  nthroot_content :: ptr
  mixed_whole :: ptr
  mixed_numer :: ptr
  mixed_denom :: ptr
  abs_content :: ptr
  paren_content :: ptr
  func_name :: string
  func_arg :: ptr

record cursor_t =
  sequence :: ptr
  after :: ptr

text \<open>
  \<open>math_expr2_t\<close>. The pool \<open>nodes[MAX_NODES]\<close> is a store from slot index to node;
  \<open>next_free\<close> is only ever assigned \<open>0\<close> and \<open>(idx + 1) % MAX_NODES\<close>, so it is a
  natural number.
\<close>

record math_expr2 =
  nodes :: "nat \<Rightarrow> expr_node"
  next_free :: nat
  root :: ptr
  cursor :: cursor_t
  latex :: string
  shift_mode :: bool
  alpha_mode :: bool

text \<open>The node left by \<open>memset(node, 0, sizeof( *node))\<close>: every enum is its first
  constant, every pointer null, every string empty.\<close>

definition zero_node :: expr_node where
  "zero_node = \<lparr> type = NODE_EMPTY, parent = None, next = None, prev = None,
     seq_first = None, seq_last = None, text_subtype = TEXT_NUMBER, text_text = [],
     frac_numer = None, frac_denom = None, exp_base = None, exp_power = None,
     subscript_base = None, subscript_sub = None, root_index = 0, root_content = None,
     nthroot_index = None, nthroot_content = None, mixed_whole = None,
     mixed_numer = None, mixed_denom = None, abs_content = None, paren_content = None,
     func_name = [], func_arg = None \<rparr>"

text \<open>A store update through a pointer: \<open>p->field = v\<close> is \<open>upd h p (\<lambda>n. n\<lparr>field := v\<rparr>)\<close>.\<close>

definition upd :: "(nat \<Rightarrow> expr_node) \<Rightarrow> nat \<Rightarrow> (expr_node \<Rightarrow> expr_node) \<Rightarrow> (nat \<Rightarrow> expr_node)" where
  "upd h p f = h(p := f (h p))"

section \<open>Node pool management\<close>

text \<open>
  \<open>math2_alloc_node\<close>: the \<open>for\<close> loop over \<open>i = 0 .. MAX_NODES - 1\<close> returns at the first
  \<open>i\<close> whose slot \<open>(next_free + i) % MAX_NODES\<close> is empty.
\<close>

definition math2_alloc_node :: "math_expr2 \<Rightarrow> node_type \<Rightarrow> ptr \<times> math_expr2" where
  "math2_alloc_node expr t =
     (case find (\<lambda>i. type (nodes expr ((next_free expr + i) mod MAX_NODES)) = NODE_EMPTY)
                [0..<MAX_NODES] of
        None \<Rightarrow> (None, expr)
      | Some i \<Rightarrow>
          (let idx = (next_free expr + i) mod MAX_NODES in
           (Some idx,
            expr\<lparr> nodes := (nodes expr)(idx := zero_node\<lparr> type := t \<rparr>),
                  next_free := (idx + 1) mod MAX_NODES \<rparr>)))"

definition math2_new_sequence :: "math_expr2 \<Rightarrow> ptr \<times> math_expr2" where
  "math2_new_sequence expr =
     (case math2_alloc_node expr NODE_SEQUENCE of
        (None, e) \<Rightarrow> (None, e)
      | (Some seq, e) \<Rightarrow>
          (Some seq, e\<lparr> nodes := upd (nodes e) seq (\<lambda>n. n\<lparr> seq_first := None, seq_last := None \<rparr>) \<rparr>))"

text \<open>
  \<open>math2_init\<close>: the whole object is zeroed, every slot marked empty, and the root
  sequence allocated.
\<close>

definition math2_init :: math_expr2 where
  "math2_init =
     (let e0 = \<lparr> nodes = (\<lambda>_. zero_node), next_free = 0, root = None,
                 cursor = \<lparr> sequence = None, after = None \<rparr>, latex = [],
                 shift_mode = False, alpha_mode = False \<rparr>;
          (r, e1) = math2_new_sequence e0
      in e1\<lparr> root := r, cursor := \<lparr> sequence = r, after = None \<rparr>,
             shift_mode := False, alpha_mode := False \<rparr>)"

text \<open>
  \<open>math2_free_node\<close> recurses through child pointers and sibling chains, which need
  not be well-founded in an arbitrary store. The fuel bounds the recursion depth
  (\<open>None\<close> is "did not return"); the null and already-empty checks come first, as in
  the source, and need no fuel. The function writes nothing but \<open>type\<close> fields, so the
  member pointers of a container are the same whether read before the first recursive
  call or between the calls; \<open>free_each\<close> takes them in the order of the source.
\<close>

fun math2_free_node_pool :: "nat \<Rightarrow> (nat \<Rightarrow> expr_node) \<Rightarrow> ptr \<Rightarrow> (nat \<Rightarrow> expr_node) option"
  and free_children :: "nat \<Rightarrow> (nat \<Rightarrow> expr_node) \<Rightarrow> ptr \<Rightarrow> (nat \<Rightarrow> expr_node) option"
  and free_each :: "nat \<Rightarrow> (nat \<Rightarrow> expr_node) \<Rightarrow> ptr list \<Rightarrow> (nat \<Rightarrow> expr_node) option"
where
  "math2_free_node_pool fuel h None = Some h"
| "math2_free_node_pool fuel h (Some n) =
     (if type (h n) = NODE_EMPTY then Some h
      else case fuel of
        0 \<Rightarrow> None
      | Suc k \<Rightarrow>
          map_option (\<lambda>h'. upd h' n (\<lambda>x. x\<lparr> type := NODE_EMPTY \<rparr>))
            (case type (h n) of
               NODE_SEQUENCE \<Rightarrow> free_children k h (seq_first (h n))
             | NODE_FRACTION \<Rightarrow> free_each k h [frac_numer (h n), frac_denom (h n)]
             | NODE_EXPONENT \<Rightarrow> free_each k h [exp_base (h n), exp_power (h n)]
             | NODE_SUBSCRIPT \<Rightarrow> free_each k h [subscript_base (h n), subscript_sub (h n)]
             | NODE_ROOT \<Rightarrow> free_each k h [root_content (h n)]
             | NODE_NTHROOT \<Rightarrow> free_each k h [nthroot_index (h n), nthroot_content (h n)]
             | NODE_ABS \<Rightarrow> free_each k h [abs_content (h n)]
             | NODE_PAREN \<Rightarrow> free_each k h [paren_content (h n)]
             | NODE_FUNCTION \<Rightarrow> free_each k h [func_arg (h n)]
             | NODE_MIXED_FRAC \<Rightarrow>
                 free_each k h [mixed_whole (h n), mixed_numer (h n), mixed_denom (h n)]
             | _ \<Rightarrow> Some h))"
| "free_children fuel h None = Some h"
| "free_children fuel h (Some c) =
     (case fuel of
        0 \<Rightarrow> None
      | Suc k \<Rightarrow>
          (let nxt = next (h c) in
           case math2_free_node_pool k h (Some c) of
             None \<Rightarrow> None
           | Some h' \<Rightarrow> free_children k h' nxt))"
| "free_each fuel h [] = Some h"
| "free_each fuel h (p # ps) =
     (case math2_free_node_pool fuel h p of
        None \<Rightarrow> None
      | Some h' \<Rightarrow> free_each fuel h' ps)"

definition math2_free_node :: "nat \<Rightarrow> math_expr2 \<Rightarrow> ptr \<Rightarrow> math_expr2 option" where
  "math2_free_node fuel expr node =
     map_option (\<lambda>h. expr\<lparr> nodes := h \<rparr>) (math2_free_node_pool fuel (nodes expr) node)"

section \<open>Sequence operations\<close>

definition seq_insert_after :: "(nat \<Rightarrow> expr_node) \<Rightarrow> ptr \<Rightarrow> ptr \<Rightarrow> ptr \<Rightarrow> (nat \<Rightarrow> expr_node)" where
  "seq_insert_after h seq aft node =
     (case (seq, node) of
        (Some s, Some n) \<Rightarrow>
          if type (h s) \<noteq> NODE_SEQUENCE then h
          else
            (let h1 = upd h n (\<lambda>x. x\<lparr> parent := Some s \<rparr>) in
             case aft of
               None \<Rightarrow>
                 (let h2 = upd h1 n (\<lambda>x. x\<lparr> prev := None \<rparr>);
                      h3 = upd h2 n (\<lambda>x. x\<lparr> next := seq_first (h2 s) \<rparr>);
                      h4 = (case seq_first (h3 s) of
                              Some f \<Rightarrow> upd h3 f (\<lambda>x. x\<lparr> prev := Some n \<rparr>)
                            | None \<Rightarrow> h3);
                      h5 = upd h4 s (\<lambda>x. x\<lparr> seq_first := Some n \<rparr>)
                  in if seq_last (h5 s) = None
                     then upd h5 s (\<lambda>x. x\<lparr> seq_last := Some n \<rparr>) else h5)
             | Some a \<Rightarrow>
                 (let h2 = upd h1 n (\<lambda>x. x\<lparr> prev := Some a \<rparr>);
                      h3 = upd h2 n (\<lambda>x. x\<lparr> next := next (h2 a) \<rparr>);
                      h4 = (case next (h3 a) of
                              Some q \<Rightarrow> upd h3 q (\<lambda>x. x\<lparr> prev := Some n \<rparr>)
                            | None \<Rightarrow> h3);
                      h5 = upd h4 a (\<lambda>x. x\<lparr> next := Some n \<rparr>)
                  in if seq_last (h5 s) = Some a
                     then upd h5 s (\<lambda>x. x\<lparr> seq_last := Some n \<rparr>) else h5))
      | _ \<Rightarrow> h)"

definition seq_remove :: "(nat \<Rightarrow> expr_node) \<Rightarrow> ptr \<Rightarrow> (nat \<Rightarrow> expr_node)" where
  "seq_remove h node =
     (case node of
        None \<Rightarrow> h
      | Some n \<Rightarrow>
          (case parent (h n) of
             None \<Rightarrow> h
           | Some s \<Rightarrow>
               if type (h s) \<noteq> NODE_SEQUENCE then h
               else
                 (let h1 = (case prev (h n) of
                              Some p \<Rightarrow> upd h p (\<lambda>x. x\<lparr> next := next (h n) \<rparr>)
                            | None \<Rightarrow> upd h s (\<lambda>x. x\<lparr> seq_first := next (h n) \<rparr>));
                      h2 = (case next (h1 n) of
                              Some q \<Rightarrow> upd h1 q (\<lambda>x. x\<lparr> prev := prev (h1 n) \<rparr>)
                            | None \<Rightarrow> upd h1 s (\<lambda>x. x\<lparr> seq_last := prev (h1 n) \<rparr>))
                  in upd h2 n (\<lambda>x. x\<lparr> parent := None, prev := None, next := None \<rparr>))))"

definition seq_is_empty :: "(nat \<Rightarrow> expr_node) \<Rightarrow> ptr \<Rightarrow> bool" where
  "seq_is_empty h seq =
     (case seq of
        None \<Rightarrow> False
      | Some s \<Rightarrow> type (h s) = NODE_SEQUENCE \<and> seq_first (h s) = None)"

section \<open>Cursor operations\<close>

text \<open>
  The cursor functions dereference \<open>expr->cursor.sequence\<close> without a null check. A
  null dereference is the result \<open>None\<close>; otherwise the result is the returned flag and
  the state after the call.
\<close>

definition cursor_left :: "math_expr2 \<Rightarrow> bool \<times> math_expr2" where
  "cursor_left expr =
     (case after (cursor expr) of
        Some a \<Rightarrow> (True, expr\<lparr> cursor := (cursor expr)\<lparr> after := prev (nodes expr a) \<rparr> \<rparr>)
      | None \<Rightarrow> (False, expr))"

text \<open>
  The node just ahead of the cursor, as \<open>cursor_right\<close>, \<open>cursor_enter_right\<close> and
  \<open>cursor_enter_left\<close> compute it in their first statement:
  \<open>after ? after->next : sequence->data.seq.first\<close>.
\<close>

definition node_ahead :: "math_expr2 \<Rightarrow> ptr option" where
  "node_ahead expr =
     (case after (cursor expr) of
        Some a \<Rightarrow> Some (next (nodes expr a))
      | None \<Rightarrow>
          (case sequence (cursor expr) of
             None \<Rightarrow> None
           | Some q \<Rightarrow> Some (seq_first (nodes expr q))))"

definition cursor_right :: "math_expr2 \<Rightarrow> (bool \<times> math_expr2) option" where
  "cursor_right expr =
     (case node_ahead expr of
        None \<Rightarrow> None
      | Some nxt \<Rightarrow>
          (case nxt of
             Some n \<Rightarrow> Some (True, expr\<lparr> cursor := (cursor expr)\<lparr> after := Some n \<rparr> \<rparr>)
           | None \<Rightarrow> Some (False, expr)))"

fun get_last_slot :: "expr_node \<Rightarrow> ptr" where
  "get_last_slot node =
     (case type node of
        NODE_FRACTION \<Rightarrow> frac_denom node
      | NODE_EXPONENT \<Rightarrow> exp_power node
      | NODE_SUBSCRIPT \<Rightarrow> subscript_sub node
      | NODE_ROOT \<Rightarrow> root_content node
      | NODE_NTHROOT \<Rightarrow> nthroot_content node
      | NODE_ABS \<Rightarrow> abs_content node
      | NODE_PAREN \<Rightarrow> paren_content node
      | NODE_FUNCTION \<Rightarrow> func_arg node
      | NODE_MIXED_FRAC \<Rightarrow> mixed_denom node
      | _ \<Rightarrow> None)"

fun get_first_slot :: "expr_node \<Rightarrow> ptr" where
  "get_first_slot node =
     (case type node of
        NODE_FRACTION \<Rightarrow> frac_numer node
      | NODE_EXPONENT \<Rightarrow> exp_base node
      | NODE_SUBSCRIPT \<Rightarrow> subscript_base node
      | NODE_ROOT \<Rightarrow> root_content node
      | NODE_NTHROOT \<Rightarrow> nthroot_index node
      | NODE_ABS \<Rightarrow> abs_content node
      | NODE_PAREN \<Rightarrow> paren_content node
      | NODE_FUNCTION \<Rightarrow> func_arg node
      | NODE_MIXED_FRAC \<Rightarrow> mixed_whole node
      | _ \<Rightarrow> None)"

text \<open>
  The common tail of the three enter functions: move into \<open>slot\<close> when it is a
  sequence, with the cursor placed by \<open>place\<close> (at the start, or after the slot's last
  child).
\<close>

definition enter_slot :: "math_expr2 \<Rightarrow> ptr \<Rightarrow> (expr_node \<Rightarrow> ptr) \<Rightarrow> bool \<times> math_expr2" where
  "enter_slot expr slot place =
     (case slot of
        None \<Rightarrow> (False, expr)
      | Some sl \<Rightarrow>
          if type (nodes expr sl) = NODE_SEQUENCE
          then (True, expr\<lparr> cursor := \<lparr> sequence = Some sl, after = place (nodes expr sl) \<rparr> \<rparr>)
          else (False, expr))"

definition cursor_enter_right :: "math_expr2 \<Rightarrow> (bool \<times> math_expr2) option" where
  "cursor_enter_right expr =
     (case node_ahead expr of
        None \<Rightarrow> None
      | Some None \<Rightarrow> Some (False, expr)
      | Some (Some target) \<Rightarrow>
          Some (enter_slot expr (get_first_slot (nodes expr target)) (\<lambda>_. None)))"

definition cursor_enter_left :: "math_expr2 \<Rightarrow> (bool \<times> math_expr2) option" where
  "cursor_enter_left expr =
     (case node_ahead expr of
        None \<Rightarrow> None
      | Some None \<Rightarrow> Some (False, expr)
      | Some (Some target) \<Rightarrow>
          Some (enter_slot expr (get_last_slot (nodes expr target)) seq_last))"

definition cursor_enter :: "math_expr2 \<Rightarrow> (bool \<times> math_expr2) option" where
  "cursor_enter expr =
     (case (case after (cursor expr) of
              Some a \<Rightarrow> Some (Some a)
            | None \<Rightarrow>
                (case sequence (cursor expr) of
                   None \<Rightarrow> None
                 | Some q \<Rightarrow> Some (seq_first (nodes expr q)))) of
        None \<Rightarrow> None
      | Some None \<Rightarrow> Some (False, expr)
      | Some (Some target) \<Rightarrow>
          Some (enter_slot expr (get_first_slot (nodes expr target)) seq_last))"

text \<open>
  The common body of \<open>cursor_exit_right\<close>, \<open>cursor_exit_left\<close> and \<open>cursor_exit\<close>, which
  differ only in the node the cursor is placed after: the container itself, or the
  container's \<open>prev\<close>.
\<close>

definition exit_to :: "math_expr2 \<Rightarrow> (nat \<Rightarrow> expr_node \<Rightarrow> ptr) \<Rightarrow> (bool \<times> math_expr2) option" where
  "exit_to expr place =
     (case sequence (cursor expr) of
        None \<Rightarrow> None
      | Some seq \<Rightarrow>
          (case parent (nodes expr seq) of
             None \<Rightarrow> Some (False, expr)
           | Some container \<Rightarrow>
               (case parent (nodes expr container) of
                  None \<Rightarrow> Some (False, expr)
                | Some cp \<Rightarrow>
                    if type (nodes expr cp) = NODE_SEQUENCE
                    then Some (True, expr\<lparr> cursor :=
                           \<lparr> sequence = Some cp, after = place container (nodes expr container) \<rparr> \<rparr>)
                    else Some (False, expr))))"

definition cursor_exit_right :: "math_expr2 \<Rightarrow> (bool \<times> math_expr2) option" where
  "cursor_exit_right expr = exit_to expr (\<lambda>c _. Some c)"

definition cursor_exit_left :: "math_expr2 \<Rightarrow> (bool \<times> math_expr2) option" where
  "cursor_exit_left expr = exit_to expr (\<lambda>_ n. prev n)"

definition cursor_exit :: "math_expr2 \<Rightarrow> (bool \<times> math_expr2) option" where
  "cursor_exit expr = exit_to expr (\<lambda>c _. Some c)"

fun get_next_slot :: "expr_node \<Rightarrow> ptr \<Rightarrow> ptr" where
  "get_next_slot container current_slot =
     (case type container of
        NODE_FRACTION \<Rightarrow>
          if current_slot = frac_numer container then frac_denom container else None
      | NODE_EXPONENT \<Rightarrow>
          if current_slot = exp_base container then exp_power container else None
      | NODE_SUBSCRIPT \<Rightarrow>
          if current_slot = subscript_base container then subscript_sub container else None
      | NODE_NTHROOT \<Rightarrow>
          if current_slot = nthroot_index container then nthroot_content container else None
      | NODE_MIXED_FRAC \<Rightarrow>
          if current_slot = mixed_whole container then mixed_numer container
          else if current_slot = mixed_numer container then mixed_denom container
          else None
      | _ \<Rightarrow> None)"

fun get_prev_slot :: "expr_node \<Rightarrow> ptr \<Rightarrow> ptr" where
  "get_prev_slot container current_slot =
     (case type container of
        NODE_FRACTION \<Rightarrow>
          if current_slot = frac_denom container then frac_numer container else None
      | NODE_EXPONENT \<Rightarrow>
          if current_slot = exp_power container then exp_base container else None
      | NODE_SUBSCRIPT \<Rightarrow>
          if current_slot = subscript_sub container then subscript_base container else None
      | NODE_NTHROOT \<Rightarrow>
          if current_slot = nthroot_content container then nthroot_index container else None
      | NODE_MIXED_FRAC \<Rightarrow>
          if current_slot = mixed_denom container then mixed_numer container
          else if current_slot = mixed_numer container then mixed_whole container
          else None
      | _ \<Rightarrow> None)"

definition cursor_next_slot :: "math_expr2 \<Rightarrow> (bool \<times> math_expr2) option" where
  "cursor_next_slot expr =
     (case sequence (cursor expr) of
        None \<Rightarrow> None
      | Some seq \<Rightarrow>
          (case parent (nodes expr seq) of
             None \<Rightarrow> Some (False, expr)
           | Some container \<Rightarrow>
               Some (enter_slot expr (get_next_slot (nodes expr container) (Some seq))
                       (\<lambda>_. None))))"

definition cursor_prev_slot :: "math_expr2 \<Rightarrow> (bool \<times> math_expr2) option" where
  "cursor_prev_slot expr =
     (case sequence (cursor expr) of
        None \<Rightarrow> None
      | Some seq \<Rightarrow>
          (case parent (nodes expr seq) of
             None \<Rightarrow> Some (False, expr)
           | Some container \<Rightarrow>
               Some (enter_slot expr (get_prev_slot (nodes expr container) (Some seq))
                       seq_last)))"

section \<open>Editing operations\<close>

definition math2_clear_modes :: "math_expr2 \<Rightarrow> math_expr2" where
  "math2_clear_modes expr = expr\<lparr> shift_mode := False, alpha_mode := False \<rparr>"

text \<open>
  \<open>strncpy(dst, src, sizeof(dst) - 1)\<close> into a zeroed array keeps at most the first
  \<open>sizeof(dst) - 1\<close> bytes of the C string: 15 for \<open>text[16]\<close>, 7 for \<open>name[8]\<close>.
\<close>

definition math2_insert_text :: "math_expr2 \<Rightarrow> text_type \<Rightarrow> string \<Rightarrow> math_expr2" where
  "math2_insert_text expr subtype txt =
     (case math2_alloc_node expr NODE_TEXT of
        (None, _) \<Rightarrow> expr
      | (Some node, e1) \<Rightarrow>
          (let h2 = upd (nodes e1) node (\<lambda>x. x\<lparr> text_subtype := subtype \<rparr>);
               h3 = upd h2 node (\<lambda>x. x\<lparr> text_text := take 15 txt \<rparr>);
               h4 = seq_insert_after h3 (sequence (cursor e1)) (after (cursor e1)) (Some node)
           in math2_clear_modes
                (e1\<lparr> nodes := h4, cursor := (cursor e1)\<lparr> after := Some node \<rparr> \<rparr>)))"

definition IS_OPERATOR :: "expr_node \<Rightarrow> bool" where
  "IS_OPERATOR n \<longleftrightarrow> type n = NODE_TEXT \<and> text_subtype n = TEXT_OPERATOR"

text \<open>
  The first \<open>while\<close> loop of \<open>math2_insert_fraction\<close>: walk backwards from
  \<open>collect_start\<close>; the result is the value of \<open>collect_start\<close> when the loop is left.
  The loop follows \<open>prev\<close> pointers and need not end in an arbitrary store, so it is a
  partial function: \<open>None\<close> is "does not return".
\<close>

partial_function (option) collect_walk :: "(nat \<Rightarrow> expr_node) \<Rightarrow> ptr \<Rightarrow> ptr option" where
  "collect_walk h collect_start =
     (case collect_start of
        None \<Rightarrow> Some None
      | Some c \<Rightarrow>
          if IS_OPERATOR (h c) then Some (next (h c))
          else
            (case prev (h c) of
               None \<Rightarrow> Some (Some c)
             | Some p \<Rightarrow>
                 if IS_OPERATOR (h p) then Some (Some c)
                 else if type (h p) = NODE_TEXT \<or> type (h p) = NODE_EXPONENT \<or>
                         type (h p) = NODE_SUBSCRIPT \<or> type (h p) = NODE_PAREN \<or>
                         type (h p) = NODE_FRACTION \<or> type (h p) = NODE_ROOT \<or>
                         type (h p) = NODE_ABS
                 then collect_walk h (Some p)
                 else Some (Some c)))"

text \<open>
  The second loop: move the nodes from \<open>node\<close> on into the numerator, one by one,
  until the node that equals \<open>collect_end\<close> has been moved or the chain ends.
\<close>

partial_function (option) move_nodes ::
  "(nat \<Rightarrow> expr_node) \<Rightarrow> nat \<Rightarrow> ptr \<Rightarrow> ptr \<Rightarrow> ptr \<Rightarrow> (nat \<Rightarrow> expr_node) option" where
  "move_nodes h frac collect_end node last_inserted =
     (case node of
        None \<Rightarrow> Some h
      | Some n \<Rightarrow>
          (let nxt = next (h n);
               is_last = (node = collect_end);
               h1 = seq_remove h (Some n);
               h2 = seq_insert_after h1 (frac_numer (h1 frac)) last_inserted (Some n)
           in if is_last then Some h2
              else move_nodes h2 frac collect_end nxt (Some n)))"

declare collect_walk.simps [code]
declare move_nodes.simps [code]

definition math2_insert_fraction :: "math_expr2 \<Rightarrow> math_expr2 option" where
  "math2_insert_fraction expr =
     (case math2_alloc_node expr NODE_FRACTION of
        (None, _) \<Rightarrow> Some expr
      | (Some frac, e1) \<Rightarrow>
          (let (numer, e2) = math2_new_sequence e1;
               e3 = e2\<lparr> nodes := upd (nodes e2) frac (\<lambda>x. x\<lparr> frac_numer := numer \<rparr>) \<rparr>;
               (denom, e4) = math2_new_sequence e3;
               e5 = e4\<lparr> nodes := upd (nodes e4) frac (\<lambda>x. x\<lparr> frac_denom := denom \<rparr>) \<rparr>
           in case (numer, denom) of
                (Some nu, Some de) \<Rightarrow>
                  (let h6 = upd (nodes e5) nu (\<lambda>x. x\<lparr> parent := Some frac \<rparr>);
                       h7 = upd h6 de (\<lambda>x. x\<lparr> parent := Some frac \<rparr>);
                       collect_end = after (cursor e5)
                   in case collect_walk h7 collect_end of
                        None \<Rightarrow> None
                      | Some collect_start \<Rightarrow>
                          (case (case collect_start of
                                   Some cs \<Rightarrow>
                                     if collect_end \<noteq> None
                                     then map_option (\<lambda>h. (prev (h7 cs), h))
                                            (move_nodes h7 frac collect_end (Some cs) None)
                                     else Some (after (cursor e5), h7)
                                 | None \<Rightarrow> Some (after (cursor e5), h7)) of
                             None \<Rightarrow> None
                           | Some (aft, h8) \<Rightarrow>
                               (let h9 = seq_insert_after h8 (sequence (cursor e5)) aft (Some frac);
                                    sq = (if seq_is_empty h9 (frac_numer (h9 frac))
                                          then frac_numer (h9 frac)
                                          else frac_denom (h9 frac))
                                in Some (math2_clear_modes
                                     (e5\<lparr> nodes := h9,
                                          cursor := \<lparr> sequence = sq, after = None \<rparr> \<rparr>)))))
              | _ \<Rightarrow> Some e5))"

definition math2_insert_exponent :: "math_expr2 \<Rightarrow> math_expr2" where
  "math2_insert_exponent expr =
     (case math2_alloc_node expr NODE_EXPONENT of
        (None, _) \<Rightarrow> expr
      | (Some ex, e1) \<Rightarrow>
          (let (base, e2) = math2_new_sequence e1;
               e3 = e2\<lparr> nodes := upd (nodes e2) ex (\<lambda>x. x\<lparr> exp_base := base \<rparr>) \<rparr>;
               (power, e4) = math2_new_sequence e3;
               e5 = e4\<lparr> nodes := upd (nodes e4) ex (\<lambda>x. x\<lparr> exp_power := power \<rparr>) \<rparr>
           in case (base, power) of
                (Some b, Some pw) \<Rightarrow>
                  (let h6 = upd (nodes e5) b (\<lambda>x. x\<lparr> parent := Some ex \<rparr>);
                       h7 = upd h6 pw (\<lambda>x. x\<lparr> parent := Some ex \<rparr>);
                       (aft, h8) =
                         (case after (cursor e5) of
                            Some a \<Rightarrow>
                              if type (h7 a) = NODE_TEXT \<or> type (h7 a) = NODE_FRACTION \<or>
                                 type (h7 a) = NODE_PAREN \<or> type (h7 a) = NODE_EXPONENT \<or>
                                 type (h7 a) = NODE_ROOT
                              then (prev (h7 a),
                                    (let g = seq_remove h7 (Some a)
                                     in seq_insert_after g (exp_base (g ex)) None (Some a)))
                              else (Some a, h7)
                          | None \<Rightarrow> (None, h7));
                       h9 = seq_insert_after h8 (sequence (cursor e5)) aft (Some ex)
                   in math2_clear_modes
                        (e5\<lparr> nodes := h9,
                             cursor := \<lparr> sequence = exp_power (h9 ex), after = None \<rparr> \<rparr>))
              | _ \<Rightarrow> e5))"

definition math2_insert_subscript :: "math_expr2 \<Rightarrow> math_expr2" where
  "math2_insert_subscript expr =
     (case math2_alloc_node expr NODE_SUBSCRIPT of
        (None, _) \<Rightarrow> expr
      | (Some sub, e1) \<Rightarrow>
          (let (base, e2) = math2_new_sequence e1;
               e3 = e2\<lparr> nodes := upd (nodes e2) sub (\<lambda>x. x\<lparr> subscript_base := base \<rparr>) \<rparr>;
               (sb, e4) = math2_new_sequence e3;
               e5 = e4\<lparr> nodes := upd (nodes e4) sub (\<lambda>x. x\<lparr> subscript_sub := sb \<rparr>) \<rparr>
           in case (base, sb) of
                (Some b, Some sbn) \<Rightarrow>
                  (let h6 = upd (nodes e5) b (\<lambda>x. x\<lparr> parent := Some sub \<rparr>);
                       h7 = upd h6 sbn (\<lambda>x. x\<lparr> parent := Some sub \<rparr>);
                       (aft, h8) =
                         (case after (cursor e5) of
                            Some a \<Rightarrow>
                              if type (h7 a) = NODE_TEXT
                              then (prev (h7 a),
                                    (let g = seq_remove h7 (Some a)
                                     in seq_insert_after g (subscript_base (g sub)) None (Some a)))
                              else (Some a, h7)
                          | None \<Rightarrow> (None, h7));
                       h9 = seq_insert_after h8 (sequence (cursor e5)) aft (Some sub)
                   in math2_clear_modes
                        (e5\<lparr> nodes := h9,
                             cursor := \<lparr> sequence = subscript_sub (h9 sub), after = None \<rparr> \<rparr>))
              | _ \<Rightarrow> e5))"

definition math2_insert_nthroot :: "math_expr2 \<Rightarrow> int \<Rightarrow> math_expr2" where
  "math2_insert_nthroot expr n =
     (case math2_alloc_node expr NODE_ROOT of
        (None, _) \<Rightarrow> expr
      | (Some rt, e1) \<Rightarrow>
          (let e2 = e1\<lparr> nodes := upd (nodes e1) rt (\<lambda>x. x\<lparr> root_index := n \<rparr>) \<rparr>;
               (content, e3) = math2_new_sequence e2;
               e4 = e3\<lparr> nodes := upd (nodes e3) rt (\<lambda>x. x\<lparr> root_content := content \<rparr>) \<rparr>
           in case content of
                Some c \<Rightarrow>
                  (let h5 = upd (nodes e4) c (\<lambda>x. x\<lparr> parent := Some rt \<rparr>);
                       h6 = seq_insert_after h5 (sequence (cursor e4)) (after (cursor e4)) (Some rt)
                   in math2_clear_modes
                        (e4\<lparr> nodes := h6,
                             cursor := \<lparr> sequence = root_content (h6 rt), after = None \<rparr> \<rparr>))
              | None \<Rightarrow> e4))"

definition math2_insert_sqrt :: "math_expr2 \<Rightarrow> math_expr2" where
  "math2_insert_sqrt expr = math2_insert_nthroot expr 2"

definition math2_insert_xthroot :: "math_expr2 \<Rightarrow> math_expr2" where
  "math2_insert_xthroot expr =
     (case math2_alloc_node expr NODE_NTHROOT of
        (None, _) \<Rightarrow> expr
      | (Some rt, e1) \<Rightarrow>
          (let (idx, e2) = math2_new_sequence e1;
               e3 = e2\<lparr> nodes := upd (nodes e2) rt (\<lambda>x. x\<lparr> nthroot_index := idx \<rparr>) \<rparr>;
               (content, e4) = math2_new_sequence e3;
               e5 = e4\<lparr> nodes := upd (nodes e4) rt (\<lambda>x. x\<lparr> nthroot_content := content \<rparr>) \<rparr>
           in case (idx, content) of
                (Some i, Some c) \<Rightarrow>
                  (let h6 = upd (nodes e5) i (\<lambda>x. x\<lparr> parent := Some rt \<rparr>);
                       h7 = upd h6 c (\<lambda>x. x\<lparr> parent := Some rt \<rparr>);
                       h8 = seq_insert_after h7 (sequence (cursor e5)) (after (cursor e5)) (Some rt)
                   in math2_clear_modes
                        (e5\<lparr> nodes := h8,
                             cursor := \<lparr> sequence = nthroot_index (h8 rt), after = None \<rparr> \<rparr>))
              | _ \<Rightarrow> e5))"

definition math2_insert_mixed_frac :: "math_expr2 \<Rightarrow> math_expr2" where
  "math2_insert_mixed_frac expr =
     (case math2_alloc_node expr NODE_MIXED_FRAC of
        (None, _) \<Rightarrow> expr
      | (Some mf, e1) \<Rightarrow>
          (let (whole, e2) = math2_new_sequence e1;
               e3 = e2\<lparr> nodes := upd (nodes e2) mf (\<lambda>x. x\<lparr> mixed_whole := whole \<rparr>) \<rparr>;
               (numer, e4) = math2_new_sequence e3;
               e5 = e4\<lparr> nodes := upd (nodes e4) mf (\<lambda>x. x\<lparr> mixed_numer := numer \<rparr>) \<rparr>;
               (denom, e6) = math2_new_sequence e5;
               e7 = e6\<lparr> nodes := upd (nodes e6) mf (\<lambda>x. x\<lparr> mixed_denom := denom \<rparr>) \<rparr>
           in case (whole, numer, denom) of
                (Some w, Some nu, Some de) \<Rightarrow>
                  (let h8 = upd (nodes e7) w (\<lambda>x. x\<lparr> parent := Some mf \<rparr>);
                       h9 = upd h8 nu (\<lambda>x. x\<lparr> parent := Some mf \<rparr>);
                       h10 = upd h9 de (\<lambda>x. x\<lparr> parent := Some mf \<rparr>);
                       h11 = seq_insert_after h10 (sequence (cursor e7)) (after (cursor e7)) (Some mf)
                   in math2_clear_modes
                        (e7\<lparr> nodes := h11,
                             cursor := \<lparr> sequence = mixed_whole (h11 mf), after = None \<rparr> \<rparr>))
              | _ \<Rightarrow> e7))"

definition math2_insert_abs :: "math_expr2 \<Rightarrow> math_expr2" where
  "math2_insert_abs expr =
     (case math2_alloc_node expr NODE_ABS of
        (None, _) \<Rightarrow> expr
      | (Some ab, e1) \<Rightarrow>
          (let (content, e2) = math2_new_sequence e1;
               e3 = e2\<lparr> nodes := upd (nodes e2) ab (\<lambda>x. x\<lparr> abs_content := content \<rparr>) \<rparr>
           in case content of
                Some c \<Rightarrow>
                  (let h4 = upd (nodes e3) c (\<lambda>x. x\<lparr> parent := Some ab \<rparr>);
                       h5 = seq_insert_after h4 (sequence (cursor e3)) (after (cursor e3)) (Some ab)
                   in math2_clear_modes
                        (e3\<lparr> nodes := h5,
                             cursor := \<lparr> sequence = abs_content (h5 ab), after = None \<rparr> \<rparr>))
              | None \<Rightarrow> e3))"

definition math2_insert_paren :: "math_expr2 \<Rightarrow> math_expr2" where
  "math2_insert_paren expr =
     (case math2_alloc_node expr NODE_PAREN of
        (None, _) \<Rightarrow> expr
      | (Some pa, e1) \<Rightarrow>
          (let (content, e2) = math2_new_sequence e1;
               e3 = e2\<lparr> nodes := upd (nodes e2) pa (\<lambda>x. x\<lparr> paren_content := content \<rparr>) \<rparr>
           in case content of
                Some c \<Rightarrow>
                  (let h4 = upd (nodes e3) c (\<lambda>x. x\<lparr> parent := Some pa \<rparr>);
                       h5 = seq_insert_after h4 (sequence (cursor e3)) (after (cursor e3)) (Some pa)
                   in math2_clear_modes
                        (e3\<lparr> nodes := h5,
                             cursor := \<lparr> sequence = paren_content (h5 pa), after = None \<rparr> \<rparr>))
              | None \<Rightarrow> e3))"

definition math2_insert_function :: "math_expr2 \<Rightarrow> string \<Rightarrow> math_expr2" where
  "math2_insert_function expr name =
     (case math2_alloc_node expr NODE_FUNCTION of
        (None, _) \<Rightarrow> expr
      | (Some fn, e1) \<Rightarrow>
          (let e2 = e1\<lparr> nodes := upd (nodes e1) fn (\<lambda>x. x\<lparr> func_name := take 7 name \<rparr>) \<rparr>;
               (arg, e3) = math2_new_sequence e2;
               e4 = e3\<lparr> nodes := upd (nodes e3) fn (\<lambda>x. x\<lparr> func_arg := arg \<rparr>) \<rparr>
           in case arg of
                Some a \<Rightarrow>
                  (let h5 = upd (nodes e4) a (\<lambda>x. x\<lparr> parent := Some fn \<rparr>);
                       h6 = seq_insert_after h5 (sequence (cursor e4)) (after (cursor e4)) (Some fn)
                   in math2_clear_modes
                        (e4\<lparr> nodes := h6,
                             cursor := \<lparr> sequence = func_arg (h6 fn), after = None \<rparr> \<rparr>))
              | None \<Rightarrow> e4))"

section \<open>LaTeX generation\<close>

text \<open>
  The output buffer is the byte string that the \<open>strcat\<close> calls build up, without its
  terminating zero. The buffer is passed in and returned; the recursion over the tree
  takes fuel, as the release of a node does.
\<close>

definition bsl :: char where
  "bsl = CHR 0x5C"

definition times_glyph :: string where
  "times_glyph = [CHR 0xC3, CHR 0x97]"

definition div_glyph :: string where
  "div_glyph = [CHR 0xC3, CHR 0xB7]"

fun dec_digits :: "nat \<Rightarrow> string" where
  "dec_digits n =
     (if n < 10 then [char_of (48 + n)]
      else dec_digits (n div 10) @ [char_of (48 + n mod 10)])"

definition dec_int :: "int \<Rightarrow> string" where
  "dec_int i = (if i < 0 then CHR ''-'' # dec_digits (nat (- i)) else dec_digits (nat i))"

text \<open>
  What \<open>latex_node\<close> does for a node that is not a sequence, as the list of its steps
  in program order: \<open>Inl str\<close> is \<open>strcat(buf, str)\<close>, \<open>Inr slot\<close> is
  \<open>latex_sequence(slot, buf)\<close>. (\<open>snprintf\<close> into \<open>tmp[16]\<close> keeps at most 15 bytes.)
\<close>

definition latex_steps :: "expr_node \<Rightarrow> (string + ptr) list" where
  "latex_steps node =
     (case type node of
        NODE_TEXT \<Rightarrow>
          (case text_subtype node of
             TEXT_PI \<Rightarrow> [Inl (bsl # ''pi '')]
           | TEXT_OPERATOR \<Rightarrow>
               if text_text node = times_glyph then [Inl ''*'']
               else if text_text node = div_glyph then [Inl ''/'']
               else [Inl (text_text node)]
           | _ \<Rightarrow> [Inl (text_text node)])
      | NODE_FRACTION \<Rightarrow>
          [Inl (bsl # ''frac{''), Inr (frac_numer node), Inl ''}{'', Inr (frac_denom node),
           Inl ''}'']
      | NODE_EXPONENT \<Rightarrow>
          [Inl ''{'', Inr (exp_base node), Inl ''}^{'', Inr (exp_power node), Inl ''}'']
      | NODE_SUBSCRIPT \<Rightarrow>
          [Inl ''{'', Inr (subscript_base node), Inl ''}_{'', Inr (subscript_sub node),
           Inl ''}'']
      | NODE_ROOT \<Rightarrow>
          [Inl (if root_index node = 2 then bsl # ''sqrt{''
                else take 15 (bsl # ''sqrt['' @ dec_int (root_index node) @ '']{'')),
           Inr (root_content node), Inl ''}'']
      | NODE_ABS \<Rightarrow>
          [Inl (bsl # ''left|''), Inr (abs_content node), Inl (bsl # ''right|'')]
      | NODE_PAREN \<Rightarrow>
          [Inl (bsl # ''left(''), Inr (paren_content node), Inl (bsl # ''right)'')]
      | NODE_FUNCTION \<Rightarrow>
          [Inl [bsl], Inl (func_name node), Inl (bsl # ''left(''), Inr (func_arg node),
           Inl (bsl # ''right)'')]
      | NODE_NTHROOT \<Rightarrow>
          [Inl (bsl # ''sqrt[''), Inr (nthroot_index node), Inl '']{'',
           Inr (nthroot_content node), Inl ''}'']
      | NODE_MIXED_FRAC \<Rightarrow>
          [Inr (mixed_whole node), Inl (bsl # ''frac{''), Inr (mixed_numer node), Inl ''}{'',
           Inr (mixed_denom node), Inl ''}'']
      | _ \<Rightarrow> [])"

function (sequential) latex_node :: "nat \<Rightarrow> (nat \<Rightarrow> expr_node) \<Rightarrow> ptr \<Rightarrow> string \<Rightarrow> string option"
  and latex_run :: "nat \<Rightarrow> (nat \<Rightarrow> expr_node) \<Rightarrow> (string + ptr) list \<Rightarrow> string \<Rightarrow> string option"
  and latex_sequence :: "nat \<Rightarrow> (nat \<Rightarrow> expr_node) \<Rightarrow> ptr \<Rightarrow> string \<Rightarrow> string option"
  and latex_children :: "nat \<Rightarrow> (nat \<Rightarrow> expr_node) \<Rightarrow> ptr \<Rightarrow> string \<Rightarrow> string option"
where
  "latex_node fuel h None buf = Some buf"
| "latex_node 0 h (Some n) buf = None"
| "latex_node (Suc k) h (Some n) buf =
     (if type (h n) = NODE_SEQUENCE then latex_sequence k h (Some n) buf
      else latex_run k h (latex_steps (h n)) buf)"
| "latex_run fuel h [] buf = Some buf"
| "latex_run fuel h (Inl str # steps) buf = latex_run fuel h steps (buf @ str)"
| "latex_run fuel h (Inr slot # steps) buf =
     (case latex_sequence fuel h slot buf of
        None \<Rightarrow> None
      | Some b \<Rightarrow> latex_run fuel h steps b)"
| "latex_sequence fuel h None buf = Some buf"
| "latex_sequence fuel h (Some s) buf =
     (if type (h s) \<noteq> NODE_SEQUENCE then Some buf
      else latex_children fuel h (seq_first (h s)) buf)"
| "latex_children fuel h None buf = Some buf"
| "latex_children 0 h (Some c) buf = None"
| "latex_children (Suc k) h (Some c) buf =
     (case latex_node k h (Some c) buf of
        None \<Rightarrow> None
      | Some b \<Rightarrow> latex_children k h (next (h c)) b)"
  by pat_completeness auto

termination
  by (relation "measures
        [\<lambda>x. case x of Inl (Inl (k, _)) \<Rightarrow> k | Inl (Inr (k, _)) \<Rightarrow> k
              | Inr (Inl (k, _)) \<Rightarrow> k | Inr (Inr (k, _)) \<Rightarrow> k,
         \<lambda>x. case x of Inl (Inl _) \<Rightarrow> 0 | Inl (Inr (_, _, steps, _)) \<Rightarrow> 2 + length steps
              | Inr (Inl _) \<Rightarrow> 1 | Inr (Inr _) \<Rightarrow> 0]") auto

definition math2_to_latex :: "nat \<Rightarrow> math_expr2 \<Rightarrow> math_expr2 option" where
  "math2_to_latex fuel expr =
     map_option (\<lambda>b. expr\<lparr> latex := b \<rparr>) (latex_sequence fuel (nodes expr) (root expr) [])"

text \<open>
  \<open>char latex[MAX_LATEX]\<close> holds a string together with its terminating zero only if
  the string is shorter than \<open>MAX_LATEX\<close>.
\<close>

definition fits_latex_buffer :: "string \<Rightarrow> bool" where
  "fits_latex_buffer b \<longleftrightarrow> length b < MAX_LATEX"

section \<open>Drawing: parenthesis colours\<close>

text \<open>
  Of \<open>math2_draw_node\<close> and \<open>draw_sequence\<close> the model keeps the traversal and the
  global \<open>g_paren_depth\<close>; pixel coordinates, metrics, the cursor line and the
  drawing calls of the other node kinds are left out, as none of them reads or writes
  the counter or decides which nodes are visited. The log records, in program order,
  \<open>ParenDraw n c\<close> when the two parentheses of the Paren node \<open>n\<close> are drawn in colour
  \<open>c\<close> (right after \<open>g_paren_depth++\<close>), and \<open>ParenDone n\<close> at \<open>g_paren_depth--\<close>.
  A slot that is an empty sequence gets a placeholder box and is not descended into.
\<close>

datatype color_t = C_RGB nat nat nat | C_BLACK

definition COL_TEXT :: color_t where
  "COL_TEXT = C_BLACK"

definition PAREN_COLORS :: "color_t list" where
  "PAREN_COLORS = [C_RGB 0 0 31, C_RGB 31 0 0, C_RGB 0 20 0, C_RGB 20 0 20, C_RGB 20 15 0]"

definition NUM_PAREN_COLORS :: int where
  "NUM_PAREN_COLORS = 5"

datatype paren_event = ParenDraw nat color_t | ParenDone nat

record draw_state =
  g_paren_depth :: int
  paren_log :: "paren_event list"

text \<open>
  \<open>g_paren_depth % NUM_PAREN_COLORS\<close> is C's truncating remainder. The counter starts
  at \<open>0\<close> and is only decremented after an increment, so the index is never negative
  in a run of the program.
\<close>

definition paren_color :: "bool \<Rightarrow> int \<Rightarrow> color_t" where
  "paren_color g_color_brackets depth =
     (if g_color_brackets then PAREN_COLORS ! nat (depth smod NUM_PAREN_COLORS)
      else COL_TEXT)"

text \<open>
  The child slots that \<open>math2_draw_node\<close> draws for a node of each kind, in program
  order.
\<close>

definition drawn_slots :: "expr_node \<Rightarrow> ptr list" where
  "drawn_slots node =
     (case type node of
        NODE_FRACTION \<Rightarrow> [frac_numer node, frac_denom node]
      | NODE_EXPONENT \<Rightarrow> [exp_base node, exp_power node]
      | NODE_SUBSCRIPT \<Rightarrow> [subscript_base node, subscript_sub node]
      | NODE_ROOT \<Rightarrow> [root_content node]
      | NODE_NTHROOT \<Rightarrow> [nthroot_index node, nthroot_content node]
      | NODE_MIXED_FRAC \<Rightarrow> [mixed_whole node, mixed_numer node, mixed_denom node]
      | NODE_ABS \<Rightarrow> [abs_content node]
      | NODE_PAREN \<Rightarrow> [paren_content node]
      | NODE_FUNCTION \<Rightarrow> [func_arg node]
      | _ \<Rightarrow> [])"

function (sequential) math2_draw_node :: "nat \<Rightarrow> bool \<Rightarrow> (nat \<Rightarrow> expr_node) \<Rightarrow> ptr \<Rightarrow> draw_state \<Rightarrow> draw_state option"
  and draw_slots :: "nat \<Rightarrow> bool \<Rightarrow> (nat \<Rightarrow> expr_node) \<Rightarrow> ptr list \<Rightarrow> draw_state \<Rightarrow> draw_state option"
  and draw_sequence :: "nat \<Rightarrow> bool \<Rightarrow> (nat \<Rightarrow> expr_node) \<Rightarrow> ptr \<Rightarrow> draw_state \<Rightarrow> draw_state option"
  and draw_children :: "nat \<Rightarrow> bool \<Rightarrow> (nat \<Rightarrow> expr_node) \<Rightarrow> ptr \<Rightarrow> draw_state \<Rightarrow> draw_state option"
where
  "math2_draw_node fuel cb h None ds = Some ds"
| "math2_draw_node 0 cb h (Some n) ds = None"
| "math2_draw_node (Suc k) cb h (Some n) ds =
     (if type (h n) = NODE_SEQUENCE then draw_sequence k cb h (Some n) ds
      else if type (h n) = NODE_PAREN then
        (let c = paren_color cb (g_paren_depth ds);
             ds1 = ds\<lparr> g_paren_depth := g_paren_depth ds + 1 \<rparr>;
             ds2 = ds1\<lparr> paren_log := paren_log ds1 @ [ParenDraw n c] \<rparr>
         in case draw_slots k cb h (drawn_slots (h n)) ds2 of
              None \<Rightarrow> None
            | Some ds3 \<Rightarrow>
                Some (ds3\<lparr> g_paren_depth := g_paren_depth ds3 - 1,
                          paren_log := paren_log ds3 @ [ParenDone n] \<rparr>))
      else draw_slots k cb h (drawn_slots (h n)) ds)"
| "draw_slots fuel cb h [] ds = Some ds"
| "draw_slots fuel cb h (sl # sls) ds =
     (case (if seq_is_empty h sl then Some ds else draw_sequence fuel cb h sl ds) of
        None \<Rightarrow> None
      | Some ds' \<Rightarrow> draw_slots fuel cb h sls ds')"
| "draw_sequence fuel cb h None ds = Some ds"
| "draw_sequence fuel cb h (Some s) ds =
     (if type (h s) \<noteq> NODE_SEQUENCE then Some ds
      else draw_children fuel cb h (seq_first (h s)) ds)"
| "draw_children fuel cb h None ds = Some ds"
| "draw_children 0 cb h (Some c) ds = None"
| "draw_children (Suc k) cb h (Some c) ds =
     (case math2_draw_node k cb h (Some c) ds of
        None \<Rightarrow> None
      | Some ds' \<Rightarrow> draw_children k cb h (next (h c)) ds')"
  by pat_completeness auto

termination
  by (relation "measures
        [\<lambda>x. case x of Inl (Inl (k, _)) \<Rightarrow> k | Inl (Inr (k, _)) \<Rightarrow> k
              | Inr (Inl (k, _)) \<Rightarrow> k | Inr (Inr (k, _)) \<Rightarrow> k,
         \<lambda>x. case x of Inl (Inl _) \<Rightarrow> 0 | Inl (Inr (_, _, _, sls, _)) \<Rightarrow> 2 + length sls
              | Inr (Inl _) \<Rightarrow> 1 | Inr (Inr _) \<Rightarrow> 0]") auto

definition math2_draw :: "nat \<Rightarrow> bool \<Rightarrow> math_expr2 \<Rightarrow> draw_state \<Rightarrow> draw_state option" where
  "math2_draw fuel cb expr ds = draw_sequence fuel cb (nodes expr) (root expr) ds"

section \<open>Observations and example states\<close>

text \<open>
  The nodes of a sibling chain, following \<open>next\<close> from a first node; \<open>None\<close> when the
  chain is longer than the fuel.
\<close>

fun chain :: "nat \<Rightarrow> (nat \<Rightarrow> expr_node) \<Rightarrow> ptr \<Rightarrow> nat list option" where
  "chain fuel h None = Some []"
| "chain 0 h (Some n) = None"
| "chain (Suc k) h (Some n) = map_option ((#) n) (chain k h (next (h n)))"

definition seq_children :: "math_expr2 \<Rightarrow> nat \<Rightarrow> nat list option" where
  "seq_children expr s = chain MAX_NODES (nodes expr) (seq_first (nodes expr s))"

text \<open>The number of empty pool slots.\<close>

definition empty_slots :: "math_expr2 \<Rightarrow> nat" where
  "empty_slots expr = length (filter (\<lambda>i. type (nodes expr i) = NODE_EMPTY) [0..<MAX_NODES])"

text \<open>
  Everything but the cursor is the same in two states: the pool with every node's
  type, links and contents, the free-scan position, the root, the LaTeX buffer and
  the mode flags.
\<close>

definition only_cursor_changed :: "math_expr2 \<Rightarrow> math_expr2 \<Rightarrow> bool" where
  "only_cursor_changed expr e' \<longleftrightarrow>
     nodes e' = nodes expr \<and> next_free e' = next_free expr \<and> root e' = root expr \<and>
     latex e' = latex expr \<and> shift_mode e' = shift_mode expr \<and>
     alpha_mode e' = alpha_mode expr"

text \<open>The ten insertion operations, and the number of pool allocations each performs.\<close>

datatype insertion =
    InsText text_type string | InsFraction | InsExponent | InsSubscript | InsRoot int
  | InsXthRoot | InsMixedFrac | InsAbs | InsParen | InsFunction string

fun insert_op :: "insertion \<Rightarrow> math_expr2 \<Rightarrow> math_expr2 option" where
  "insert_op (InsText subtype txt) expr = Some (math2_insert_text expr subtype txt)"
| "insert_op InsFraction expr = math2_insert_fraction expr"
| "insert_op InsExponent expr = Some (math2_insert_exponent expr)"
| "insert_op InsSubscript expr = Some (math2_insert_subscript expr)"
| "insert_op (InsRoot n) expr = Some (math2_insert_nthroot expr n)"
| "insert_op InsXthRoot expr = Some (math2_insert_xthroot expr)"
| "insert_op InsMixedFrac expr = Some (math2_insert_mixed_frac expr)"
| "insert_op InsAbs expr = Some (math2_insert_abs expr)"
| "insert_op InsParen expr = Some (math2_insert_paren expr)"
| "insert_op (InsFunction name) expr = Some (math2_insert_function expr name)"

fun allocations :: "insertion \<Rightarrow> nat" where
  "allocations (InsText subtype txt) = 1"
| "allocations InsFraction = 3"
| "allocations InsExponent = 3"
| "allocations InsSubscript = 3"
| "allocations (InsRoot n) = 2"
| "allocations InsXthRoot = 3"
| "allocations InsMixedFrac = 4"
| "allocations InsAbs = 2"
| "allocations InsParen = 2"
| "allocations (InsFunction name) = 2"

text \<open>
  A full pool: the root sequence in slot 0 and the 255 text nodes that typing the digit
  "1" 255 times leaves behind it, the cursor after the last of them.
\<close>

definition exhausted :: math_expr2 where
  "exhausted =
     \<lparr> nodes = (\<lambda>i. if i = 0
                      then zero_node\<lparr> type := NODE_SEQUENCE, seq_first := Some 1,
                                     seq_last := Some 255 \<rparr>
                      else zero_node\<lparr> type := NODE_TEXT, parent := Some 0,
                                     next := (if i = 255 then None else Some (i + 1)),
                                     prev := (if i = 1 then None else Some (i - 1)),
                                     text_text := ''1'' \<rparr>),
       next_free = 0, root = Some 0,
       cursor = \<lparr> sequence = Some 0, after = Some 255 \<rparr>, latex = [],
       shift_mode = False, alpha_mode = False \<rparr>"

text \<open>Typing "1", "2", "3"; typing "1", "+", "2"; typing "1", "2".\<close>

definition typed_123 :: math_expr2 where
  "typed_123 =
     math2_insert_text (math2_insert_text (math2_insert_text math2_init
       TEXT_NUMBER ''1'') TEXT_NUMBER ''2'') TEXT_NUMBER ''3''"

definition typed_1_plus_2 :: math_expr2 where
  "typed_1_plus_2 =
     math2_insert_text (math2_insert_text (math2_insert_text math2_init
       TEXT_NUMBER ''1'') TEXT_OPERATOR ''+'') TEXT_NUMBER ''2''"

definition typed_12 :: math_expr2 where
  "typed_12 =
     math2_insert_text (math2_insert_text math2_init TEXT_NUMBER ''1'') TEXT_NUMBER ''2''"

text \<open>One pair of parentheses, and three nested pairs, inserted into the empty expression.\<close>

definition one_paren :: math_expr2 where
  "one_paren = math2_insert_paren math2_init"

definition three_parens :: math_expr2 where
  "three_parens = math2_insert_paren (math2_insert_paren (math2_insert_paren math2_init))"

text \<open>
  The invariant of a sequence: \<open>seq_holds h q xs\<close> says that the node \<open>q\<close> is a sequence
  whose children, in order, are the distinct nodes \<open>xs\<close>: \<open>first\<close> and \<open>last\<close> point to
  the ends of \<open>xs\<close> (both null when \<open>xs\<close> is empty), every child is a live node that is
  not itself a sequence, has \<open>q\<close> as parent, and its \<open>prev\<close> and \<open>next\<close> are its
  neighbours in \<open>xs\<close> (null at the ends).
\<close>

definition head_ptr :: "nat list \<Rightarrow> ptr" where
  "head_ptr xs = (case xs of [] \<Rightarrow> None | x # _ \<Rightarrow> Some x)"

definition last_ptr :: "nat list \<Rightarrow> ptr" where
  "last_ptr xs = (if xs = [] then None else Some (last xs))"

fun dll :: "(nat \<Rightarrow> expr_node) \<Rightarrow> nat \<Rightarrow> ptr \<Rightarrow> nat list \<Rightarrow> ptr \<Rightarrow> bool" where
  "dll h q pv [] nx = True"
| "dll h q pv (x # xs) nx =
     (parent (h x) = Some q \<and> type (h x) \<noteq> NODE_EMPTY \<and> type (h x) \<noteq> NODE_SEQUENCE \<and> prev (h x) = pv \<and>
      next (h x) = (case xs of [] \<Rightarrow> nx | y # _ \<Rightarrow> Some y) \<and> dll h q (Some x) xs nx)"

definition seq_holds :: "(nat \<Rightarrow> expr_node) \<Rightarrow> nat \<Rightarrow> nat list \<Rightarrow> bool" where
  "seq_holds h q xs \<longleftrightarrow>
     type (h q) = NODE_SEQUENCE \<and> distinct xs \<and>
     seq_first (h q) = head_ptr xs \<and> seq_last (h q) = last_ptr xs \<and>
     dll h q None xs None"

text \<open>The node kinds that the exponent takes as its base.\<close>

definition exponent_base_kind :: "node_type \<Rightarrow> bool" where
  "exponent_base_kind t \<longleftrightarrow>
     t = NODE_TEXT \<or> t = NODE_FRACTION \<or> t = NODE_PAREN \<or> t = NODE_EXPONENT \<or> t = NODE_ROOT"

text \<open>
  The states that the runs below end in, written out slot by slot. After "1", "2", "3"
  and a fraction: the fraction is node 4, its numerator is sequence 5 and its
  denominator sequence 6.
\<close>

definition typed_123_fraction :: math_expr2 where
  "typed_123_fraction =
     \<lparr> nodes = (\<lambda>_. zero_node)
         (0 := zero_node\<lparr> type := NODE_SEQUENCE, seq_first := Some 4, seq_last := Some 4 \<rparr>,
          1 := zero_node\<lparr> type := NODE_TEXT, parent := Some 5, next := Some 2,
                          text_text := ''1'' \<rparr>,
          2 := zero_node\<lparr> type := NODE_TEXT, parent := Some 5, next := Some 3, prev := Some 1,
                          text_text := ''2'' \<rparr>,
          3 := zero_node\<lparr> type := NODE_TEXT, parent := Some 5, prev := Some 2,
                          text_text := ''3'' \<rparr>,
          4 := zero_node\<lparr> type := NODE_FRACTION, parent := Some 0, frac_numer := Some 5,
                          frac_denom := Some 6 \<rparr>,
          5 := zero_node\<lparr> type := NODE_SEQUENCE, parent := Some 4, seq_first := Some 1,
                          seq_last := Some 3 \<rparr>,
          6 := zero_node\<lparr> type := NODE_SEQUENCE, parent := Some 4 \<rparr>),
       next_free = 7, root = Some 0,
       cursor = \<lparr> sequence = Some 6, after = None \<rparr>, latex = [],
       shift_mode = False, alpha_mode = False \<rparr>"

text \<open>After "1", "+", "2" and a fraction: fraction 4, numerator 5, denominator 6.\<close>

definition typed_1_plus_2_fraction :: math_expr2 where
  "typed_1_plus_2_fraction =
     \<lparr> nodes = (\<lambda>_. zero_node)
         (0 := zero_node\<lparr> type := NODE_SEQUENCE, seq_first := Some 1, seq_last := Some 4 \<rparr>,
          1 := zero_node\<lparr> type := NODE_TEXT, parent := Some 0, next := Some 2,
                          text_text := ''1'' \<rparr>,
          2 := zero_node\<lparr> type := NODE_TEXT, parent := Some 0, next := Some 4, prev := Some 1,
                          text_subtype := TEXT_OPERATOR, text_text := ''+'' \<rparr>,
          3 := zero_node\<lparr> type := NODE_TEXT, parent := Some 5, text_text := ''2'' \<rparr>,
          4 := zero_node\<lparr> type := NODE_FRACTION, parent := Some 0, prev := Some 2,
                          frac_numer := Some 5, frac_denom := Some 6 \<rparr>,
          5 := zero_node\<lparr> type := NODE_SEQUENCE, parent := Some 4, seq_first := Some 3,
                          seq_last := Some 3 \<rparr>,
          6 := zero_node\<lparr> type := NODE_SEQUENCE, parent := Some 4 \<rparr>),
       next_free = 7, root = Some 0,
       cursor = \<lparr> sequence = Some 6, after = None \<rparr>, latex = [],
       shift_mode = False, alpha_mode = False \<rparr>"

text \<open>
  "1", "+", "2" with the cursor moved one step left, so that it stands between "+" and
  "2"; and the function "sin" with the cursor moved out of its argument, so that it
  stands after the function node in the root sequence.
\<close>

definition plus_then_left :: math_expr2 where
  "plus_then_left = typed_1_plus_2\<lparr> cursor := \<lparr> sequence = Some 0, after = Some 2 \<rparr> \<rparr>"

definition sin_then_exit :: math_expr2 where
  "sin_then_exit =
     (math2_insert_function math2_init ''sin'')
       \<lparr> cursor := \<lparr> sequence = Some 0, after = Some 1 \<rparr> \<rparr>"

text \<open>A fraction inserted after the function: fraction 3, numerator 4, denominator 5.\<close>

definition sin_fraction :: math_expr2 where
  "sin_fraction =
     \<lparr> nodes = (\<lambda>_. zero_node)
         (0 := zero_node\<lparr> type := NODE_SEQUENCE, seq_first := Some 3, seq_last := Some 3 \<rparr>,
          1 := zero_node\<lparr> type := NODE_FUNCTION, parent := Some 4, func_name := ''sin'',
                          func_arg := Some 2 \<rparr>,
          2 := zero_node\<lparr> type := NODE_SEQUENCE, parent := Some 1 \<rparr>,
          3 := zero_node\<lparr> type := NODE_FRACTION, parent := Some 0, frac_numer := Some 4,
                          frac_denom := Some 5 \<rparr>,
          4 := zero_node\<lparr> type := NODE_SEQUENCE, parent := Some 3, seq_first := Some 1,
                          seq_last := Some 1 \<rparr>,
          5 := zero_node\<lparr> type := NODE_SEQUENCE, parent := Some 3 \<rparr>),
       next_free = 6, root = Some 0,
       cursor = \<lparr> sequence = Some 5, after = None \<rparr>, latex = [],
       shift_mode = False, alpha_mode = False \<rparr>"

text \<open>After "1", "2" and an exponent: exponent 3, base 4, power 5.\<close>

definition typed_12_exponent :: math_expr2 where
  "typed_12_exponent =
     \<lparr> nodes = (\<lambda>_. zero_node)
         (0 := zero_node\<lparr> type := NODE_SEQUENCE, seq_first := Some 1, seq_last := Some 3 \<rparr>,
          1 := zero_node\<lparr> type := NODE_TEXT, parent := Some 0, next := Some 3,
                          text_text := ''1'' \<rparr>,
          2 := zero_node\<lparr> type := NODE_TEXT, parent := Some 4, text_text := ''2'' \<rparr>,
          3 := zero_node\<lparr> type := NODE_EXPONENT, parent := Some 0, prev := Some 1,
                          exp_base := Some 4, exp_power := Some 5 \<rparr>,
          4 := zero_node\<lparr> type := NODE_SEQUENCE, parent := Some 3, seq_first := Some 2,
                          seq_last := Some 2 \<rparr>,
          5 := zero_node\<lparr> type := NODE_SEQUENCE, parent := Some 3 \<rparr>),
       next_free = 6, root = Some 0,
       cursor = \<lparr> sequence = Some 5, after = None \<rparr>, latex = [],
       shift_mode = False, alpha_mode = False \<rparr>"

text \<open>
  The reading of a parenthesis log that claim C9 describes. Starting from nesting depth
  \<open>d\<close>, every \<open>ParenDraw\<close> must carry the palette colour whose index is the current
  depth modulo 5, and raises the depth by one; every \<open>ParenDone\<close> must close an open
  parenthesis, and lowers the depth by one. The result is the depth at the end of the
  log, or \<open>None\<close> when a step of the log does not fit.
\<close>

fun replay_parens :: "nat \<Rightarrow> paren_event list \<Rightarrow> nat option" where
  "replay_parens d [] = Some d"
| "replay_parens d (ParenDraw n c # evs) =
     (if c = PAREN_COLORS ! (d mod 5) then replay_parens (Suc d) evs else None)"
| "replay_parens d (ParenDone n # evs) =
     (case d of 0 \<Rightarrow> None | Suc d' \<Rightarrow> replay_parens d' evs)"

text \<open>The state of the drawing globals when the program starts.\<close>

definition draw_start :: draw_state where
  "draw_start = \<lparr> g_paren_depth = 0, paren_log = [] \<rparr>"

text \<open>
  What a completed drawing call does to the globals: the counter is back at its value,
  and the events added to the log replay from that depth to that depth.
\<close>

definition draws_well :: "draw_state \<Rightarrow> draw_state \<Rightarrow> bool" where
  "draws_well ds ds' \<longleftrightarrow>
     g_paren_depth ds' = g_paren_depth ds \<and>
     (\<exists>t. paren_log ds' = paren_log ds @ t \<and>
          replay_parens (nat (g_paren_depth ds)) t = Some (nat (g_paren_depth ds)))"

text \<open>
  What an insertion that ran out of pool slots must leave alone: the cursor, the root,
  the mode flags, the LaTeX buffer, and every node that was live (not Empty) before
  the call.
\<close>

definition live_part_kept :: "math_expr2 \<Rightarrow> math_expr2 \<Rightarrow> bool" where
  "live_part_kept expr e' \<longleftrightarrow>
     cursor e' = cursor expr \<and> root e' = root expr \<and>
     shift_mode e' = shift_mode expr \<and> alpha_mode e' = alpha_mode expr \<and>
     latex e' = latex expr \<and>
     (\<forall>i. type (nodes expr i) \<noteq> NODE_EMPTY \<longrightarrow> nodes e' i = nodes expr i)"

text \<open>
  The nodes that a node points to, through any of its pointer fields, and the nodes
  reachable from a root pointer by following such links.
\<close>

definition node_ptrs :: "expr_node \<Rightarrow> nat set" where
  "node_ptrs n =
     {m. Some m \<in> {parent n, next n, prev n, seq_first n, seq_last n, frac_numer n,
                    frac_denom n, exp_base n, exp_power n, subscript_base n,
                    subscript_sub n, root_content n, nthroot_index n, nthroot_content n,
                    mixed_whole n, mixed_numer n, mixed_denom n, abs_content n,
                    paren_content n, func_arg n}}"

inductive_set reach :: "(nat \<Rightarrow> expr_node) \<Rightarrow> ptr \<Rightarrow> nat set"
  for h :: "nat \<Rightarrow> expr_node" and r :: ptr
where
  start: "r = Some n \<Longrightarrow> n \<in> reach h r"
| step: "n \<in> reach h r \<Longrightarrow> m \<in> node_ptrs (h n) \<Longrightarrow> m \<in> reach h r"

text \<open>
  A pool with a single empty slot: the root sequence in slot 0, the 254 text nodes that
  typing the digit "1" 254 times leaves in slots 1 to 254, slot 255 empty.
\<close>

definition one_slot_left :: math_expr2 where
  "one_slot_left =
     \<lparr> nodes = (\<lambda>i. if i = 0
                      then zero_node\<lparr> type := NODE_SEQUENCE, seq_first := Some 1,
                                     seq_last := Some 254 \<rparr>
                      else if i < 255
                      then zero_node\<lparr> type := NODE_TEXT, parent := Some 0,
                                     next := (if i = 254 then None else Some (i + 1)),
                                     prev := (if i = 1 then None else Some (i - 1)),
                                     text_text := ''1'' \<rparr>
                      else zero_node),
       next_free = 255, root = Some 0,
       cursor = \<lparr> sequence = Some 0, after = Some 254 \<rparr>, latex = [],
       shift_mode = False, alpha_mode = False \<rparr>"

text \<open>
  The arcsin key pressed \<open>k\<close> times on a fresh expression: each press inserts a function
  node at the cursor and moves the cursor into its argument, so the functions nest.
\<close>

definition arcsin_pressed :: "nat \<Rightarrow> math_expr2" where
  "arcsin_pressed k = ((\<lambda>e. math2_insert_function e ''arcsin'') ^^ k) math2_init"

text \<open>
  The state this leaves, written out: the root sequence in slot 0, the \<open>i\<close>-th function
  node in slot \<open>2 * i - 1\<close> and its argument sequence in slot \<open>2 * i\<close>, the cursor at the
  start of the innermost argument.
\<close>

definition nested_arcsin :: "nat \<Rightarrow> math_expr2" where
  "nested_arcsin k =
     \<lparr> nodes = (\<lambda>i. if 2 * k < i then zero_node
                    else if even i
                    then zero_node\<lparr> type := NODE_SEQUENCE,
                                   parent := (if i = 0 then None else Some (i - 1)),
                                   seq_first := (if i < 2 * k then Some (i + 1) else None),
                                   seq_last := (if i < 2 * k then Some (i + 1) else None) \<rparr>
                    else zero_node\<lparr> type := NODE_FUNCTION, parent := Some (i - 1),
                                   func_name := ''arcsin'', func_arg := Some (i + 1) \<rparr>),
       next_free = (2 * k + 1) mod MAX_NODES, root = Some 0,
       cursor = \<lparr> sequence = Some (2 * k), after = None \<rparr>, latex = [],
       shift_mode = False, alpha_mode = False \<rparr>"

text \<open>The LaTeX text of \<open>d\<close> nested arcsin calls around an empty argument.\<close>

fun arcsin_text :: "nat \<Rightarrow> string" where
  "arcsin_text 0 = []"
| "arcsin_text (Suc d) =
     [bsl] @ ''arcsin'' @ (bsl # ''left('') @ arcsin_text d @ (bsl # ''right)'')"

text \<open>
  The tree that a store holds below a node, as a value: a node's pool index and the
  trees of its children. The children of a sequence are the nodes of its sibling chain;
  the children of any other node are its slot sequences.
\<close>

datatype shape = Node nat "shape list"

text \<open>
  The slot sequences that a node of each kind owns, as the union in \<open>struct expr_node\<close>
  declares them.
\<close>

definition node_slots :: "expr_node \<Rightarrow> ptr list" where
  "node_slots node =
     (case type node of
        NODE_FRACTION \<Rightarrow> [frac_numer node, frac_denom node]
      | NODE_EXPONENT \<Rightarrow> [exp_base node, exp_power node]
      | NODE_SUBSCRIPT \<Rightarrow> [subscript_base node, subscript_sub node]
      | NODE_ROOT \<Rightarrow> [root_content node]
      | NODE_NTHROOT \<Rightarrow> [nthroot_index node, nthroot_content node]
      | NODE_MIXED_FRAC \<Rightarrow> [mixed_whole node, mixed_numer node, mixed_denom node]
      | NODE_ABS \<Rightarrow> [abs_content node]
      | NODE_PAREN \<Rightarrow> [paren_content node]
      | NODE_FUNCTION \<Rightarrow> [func_arg node]
      | _ \<Rightarrow> [])"

text \<open>
  \<open>seq_at h s t\<close>: in the store \<open>h\<close> the sequence \<open>s\<close> is the root of the tree \<open>t\<close>, its
  first-to-next chain holding exactly the children of \<open>t\<close>, none of them a sequence;
  \<open>node_at h n t\<close>: the node \<open>n\<close>, not a sequence, is the root of \<open>t\<close>, and each of
  its slots is a sequence that is the root of the corresponding child of \<open>t\<close>.
\<close>

fun node_at :: "(nat \<Rightarrow> expr_node) \<Rightarrow> nat \<Rightarrow> shape \<Rightarrow> bool"
  and seq_at :: "(nat \<Rightarrow> expr_node) \<Rightarrow> nat \<Rightarrow> shape \<Rightarrow> bool"
  and children_at :: "(nat \<Rightarrow> expr_node) \<Rightarrow> ptr \<Rightarrow> shape list \<Rightarrow> bool"
  and slots_at :: "(nat \<Rightarrow> expr_node) \<Rightarrow> ptr list \<Rightarrow> shape list \<Rightarrow> bool"
where
  "node_at h n (Node m ts) \<longleftrightarrow>
     m = n \<and> type (h n) \<noteq> NODE_SEQUENCE \<and> slots_at h (node_slots (h n)) ts"
| "seq_at h s (Node m ts) \<longleftrightarrow>
     m = s \<and> type (h s) = NODE_SEQUENCE \<and> children_at h (seq_first (h s)) ts"
| "children_at h None [] \<longleftrightarrow> True"
| "children_at h (Some c) (t # ts) \<longleftrightarrow> node_at h c t \<and> children_at h (next (h c)) ts"
| "children_at h None (t # ts) \<longleftrightarrow> False"
| "children_at h (Some c) [] \<longleftrightarrow> False"
| "slots_at h [] [] \<longleftrightarrow> True"
| "slots_at h (Some s # sls) (t # ts) \<longleftrightarrow> seq_at h s t \<and> slots_at h sls ts"
| "slots_at h (None # sls) (t # ts) \<longleftrightarrow> False"
| "slots_at h [] (t # ts) \<longleftrightarrow> False"
| "slots_at h (sl # sls) [] \<longleftrightarrow> False"

text \<open>The number of nodes of a tree, and its nodes in the order of a left-to-right walk.\<close>

fun tree_size :: "shape \<Rightarrow> nat" where
  "tree_size (Node n ts) = Suc (sum_list (map tree_size ts))"

fun tree_nodes :: "shape \<Rightarrow> nat list" where
  "tree_nodes (Node n ts) = n # concat (map tree_nodes ts)"

text \<open>
  The nesting depth of every Paren node of a tree, as claim C9 counts it: \<open>d\<close> for a
  Paren node with no Paren node above it, one more for each Paren node that encloses it.
  The Paren nodes are listed in the order of the left-to-right walk.
\<close>

fun paren_depths :: "(nat \<Rightarrow> expr_node) \<Rightarrow> nat \<Rightarrow> shape \<Rightarrow> (nat \<times> nat) list" where
  "paren_depths h d (Node n ts) =
     (if type (h n) = NODE_PAREN then (n, d) # concat (map (paren_depths h (Suc d)) ts)
      else concat (map (paren_depths h d) ts))"

text \<open>
  The parenthesis log that claim C9 expects for a tree drawn from depth \<open>d\<close>: a Paren node
  is drawn in the palette colour of index its depth modulo 5, then what is inside it one
  level deeper, then the Paren node is left.
\<close>

fun paren_events :: "(nat \<Rightarrow> expr_node) \<Rightarrow> nat \<Rightarrow> shape \<Rightarrow> paren_event list" where
  "paren_events h d (Node n ts) =
     (if type (h n) = NODE_PAREN
      then ParenDraw n (PAREN_COLORS ! (d mod 5)) # concat (map (paren_events h (Suc d)) ts)
           @ [ParenDone n]
      else concat (map (paren_events h d) ts))"

text \<open>The Paren nodes that a log records as drawn, each with its colour, in order.\<close>

fun drawn_parens :: "paren_event list \<Rightarrow> (nat \<times> color_t) list" where
  "drawn_parens [] = []"
| "drawn_parens (ParenDraw n c # evs) = (n, c) # drawn_parens evs"
| "drawn_parens (ParenDone n # evs) = drawn_parens evs"

text \<open>A drawing state with more events in its log.\<close>

definition logged :: "draw_state \<Rightarrow> paren_event list \<Rightarrow> draw_state" where
  "logged ds evs = ds\<lparr> paren_log := paren_log ds @ evs \<rparr>"

text \<open>The tree of three nested parentheses: Paren nodes 1, 3, 5, content sequences 2, 4, 6.\<close>

definition three_parens_tree :: shape where
  "three_parens_tree = Node 0 [Node 1 [Node 2 [Node 3 [Node 4 [Node 5 [Node 6 []]]]]]]"

section \<open>Properties\<close>

subsection \<open>Allocation\<close>

lemma scan_hits_every_slot:
  assumes "j < MAX_NODES"
  shows "\<exists>i<MAX_NODES. (nf + i) mod MAX_NODES = j"
proof -
  let ?i = "(j + (MAX_NODES - nf mod MAX_NODES)) mod MAX_NODES"
  have "?i < MAX_NODES" by (simp add: MAX_NODES_def)
  moreover have "(nf + ?i) mod MAX_NODES = j"
  proof -
    have "(nf + ?i) mod MAX_NODES =
          (nf mod MAX_NODES + (j + (MAX_NODES - nf mod MAX_NODES))) mod MAX_NODES"
      by (simp add: mod_simps)
    also have "nf mod MAX_NODES + (j + (MAX_NODES - nf mod MAX_NODES)) = j + MAX_NODES"
      by (simp add: MAX_NODES_def)
    also have "(j + MAX_NODES) mod MAX_NODES = j" using assms by simp
    finally show ?thesis .
  qed
  ultimately show ?thesis by blast
qed

lemma alloc_none:
  "math2_alloc_node expr t = (None, e') \<longleftrightarrow>
     (\<forall>j<MAX_NODES. type (nodes expr j) \<noteq> NODE_EMPTY) \<and> e' = expr"
proof -
  let ?P = "\<lambda>i. type (nodes expr ((next_free expr + i) mod MAX_NODES)) = NODE_EMPTY"
  have "find ?P [0..<MAX_NODES] = None \<longleftrightarrow> (\<forall>j<MAX_NODES. type (nodes expr j) \<noteq> NODE_EMPTY)"
  proof
    assume n: "find ?P [0..<MAX_NODES] = None"
    show "\<forall>j<MAX_NODES. type (nodes expr j) \<noteq> NODE_EMPTY"
    proof (intro allI impI)
      fix j assume "j < MAX_NODES"
      then obtain i where "i < MAX_NODES" "(next_free expr + i) mod MAX_NODES = j"
        using scan_hits_every_slot by blast
      with n show "type (nodes expr j) \<noteq> NODE_EMPTY"
        by (auto simp: find_None_iff)
    qed
  next
    assume "\<forall>j<MAX_NODES. type (nodes expr j) \<noteq> NODE_EMPTY"
    then show "find ?P [0..<MAX_NODES] = None"
      by (simp add: find_None_iff MAX_NODES_def)
  qed
  then show ?thesis
    by (auto simp: math2_alloc_node_def Let_def split: option.splits)
qed

lemma alloc_some:
  assumes "math2_alloc_node expr t = (Some idx, e')"
  shows "\<exists>i<MAX_NODES. idx = (next_free expr + i) mod MAX_NODES
           \<and> (\<forall>j<i. type (nodes expr ((next_free expr + j) mod MAX_NODES)) \<noteq> NODE_EMPTY)"
    and "type (nodes expr idx) = NODE_EMPTY"
    and "idx < MAX_NODES"
    and "e' = expr\<lparr> nodes := (nodes expr)(idx := zero_node\<lparr> type := t \<rparr>),
                     next_free := (idx + 1) mod MAX_NODES \<rparr>"
proof -
  let ?P = "\<lambda>i. type (nodes expr ((next_free expr + i) mod MAX_NODES)) = NODE_EMPTY"
  from assms obtain i where f: "find ?P [0..<MAX_NODES] = Some i"
    and idx: "idx = (next_free expr + i) mod MAX_NODES"
    and e': "e' = expr\<lparr> nodes := (nodes expr)(idx := zero_node\<lparr> type := t \<rparr>),
                     next_free := (idx + 1) mod MAX_NODES \<rparr>"
    by (auto simp: math2_alloc_node_def Let_def split: option.splits)
  from f have i: "i < MAX_NODES" "?P i" "\<forall>j<i. \<not> ?P j"
    by (auto simp: find_Some_iff)
  show "\<exists>i<MAX_NODES. idx = (next_free expr + i) mod MAX_NODES
           \<and> (\<forall>j<i. type (nodes expr ((next_free expr + j) mod MAX_NODES)) \<noteq> NODE_EMPTY)"
    using i idx by blast
  show "type (nodes expr idx) = NODE_EMPTY" using i idx by simp
  show "idx < MAX_NODES" using idx by (simp add: MAX_NODES_def)
  show "e' = expr\<lparr> nodes := (nodes expr)(idx := zero_node\<lparr> type := t \<rparr>),
                     next_free := (idx + 1) mod MAX_NODES \<rparr>" by (rule e')
qed

text \<open>
  When the slot at \<open>next_free\<close> is empty the scan stops at its first step; this is the
  case in every run from the empty expression that only inserts.
\<close>

lemma find_upt_first: "0 < n \<Longrightarrow> P 0 \<Longrightarrow> find P [0..<n] = Some 0"
  by (simp add: upt_conv_Cons)

lemma alloc_at_next_free:
  "type (nodes e (next_free e mod MAX_NODES)) = NODE_EMPTY \<Longrightarrow>
   math2_alloc_node e t =
     (Some (next_free e mod MAX_NODES),
      e\<lparr> nodes := (nodes e)(next_free e mod MAX_NODES := zero_node\<lparr> type := t \<rparr>),
         next_free := (next_free e mod MAX_NODES + 1) mod MAX_NODES \<rparr>)"
  unfolding math2_alloc_node_def
  by (subst find_upt_first) (simp_all add: MAX_NODES_def Let_def)

lemmas run_defs = alloc_at_next_free math2_new_sequence_def math2_init_def
  math2_insert_text_def math2_insert_paren_def
  seq_insert_after_def seq_remove_def upd_def zero_node_def MAX_NODES_def Let_def
  math2_clear_modes_def seq_is_empty_def

lemma exhausted_full: "j < MAX_NODES \<Longrightarrow> type (nodes exhausted j) \<noteq> NODE_EMPTY"
  by (simp add: exhausted_def)

text \<open>
  Claim C6. \<open>math2_alloc_node\<close> takes the first empty slot in the cyclic order that
  starts at \<open>next_free\<close>: it returns the slot \<open>(next_free + i) mod MAX_NODES\<close> for the
  least \<open>i\<close> whose slot is empty, zeroed and set to the requested type, and moves
  \<open>next_free\<close> to the slot after it (modulo the pool size). When none of the
  \<open>MAX_NODES\<close> slots is empty it returns null and the state is unchanged.
\<close>

theorem math2_alloc_node_round_robin:
  "((\<forall>j<MAX_NODES. type (nodes expr j) \<noteq> NODE_EMPTY) \<longrightarrow>
        math2_alloc_node expr t = (None, expr))
   \<and> ((\<exists>j<MAX_NODES. type (nodes expr j) = NODE_EMPTY) \<longrightarrow>
        (\<exists>i<MAX_NODES.
           type (nodes expr ((next_free expr + i) mod MAX_NODES)) = NODE_EMPTY
           \<and> (\<forall>j<i. type (nodes expr ((next_free expr + j) mod MAX_NODES)) \<noteq> NODE_EMPTY)
           \<and> math2_alloc_node expr t =
               (Some ((next_free expr + i) mod MAX_NODES),
                expr\<lparr> nodes := (nodes expr)
                        ((next_free expr + i) mod MAX_NODES := zero_node\<lparr> type := t \<rparr>),
                      next_free := ((next_free expr + i) mod MAX_NODES + 1) mod MAX_NODES \<rparr>)))"
proof (intro conjI impI)
  assume "\<forall>j<MAX_NODES. type (nodes expr j) \<noteq> NODE_EMPTY"
  then show "math2_alloc_node expr t = (None, expr)" by (simp add: alloc_none)
next
  assume ex: "\<exists>j<MAX_NODES. type (nodes expr j) = NODE_EMPTY"
  obtain r e' where r: "math2_alloc_node expr t = (r, e')" by (cases "math2_alloc_node expr t")
  with ex obtain idx where idx: "r = Some idx" by (cases r) (auto simp: alloc_none)
  from alloc_some[OF r[unfolded idx]] r idx
  show "\<exists>i<MAX_NODES.
           type (nodes expr ((next_free expr + i) mod MAX_NODES)) = NODE_EMPTY
           \<and> (\<forall>j<i. type (nodes expr ((next_free expr + j) mod MAX_NODES)) \<noteq> NODE_EMPTY)
           \<and> math2_alloc_node expr t =
               (Some ((next_free expr + i) mod MAX_NODES),
                expr\<lparr> nodes := (nodes expr)
                        ((next_free expr + i) mod MAX_NODES := zero_node\<lparr> type := t \<rparr>),
                      next_free := ((next_free expr + i) mod MAX_NODES + 1) mod MAX_NODES \<rparr>)"
    by auto
qed

theorem math2_alloc_node_round_robin_witness:
  "math2_alloc_node exhausted NODE_TEXT = (None, exhausted)
   \<and> math2_alloc_node math2_init NODE_TEXT =
       (Some 1, math2_init\<lparr> nodes := (nodes math2_init)(1 := zero_node\<lparr> type := NODE_TEXT \<rparr>),
                            next_free := 2 \<rparr>)"
proof
  have "\<forall>j<MAX_NODES. type (nodes exhausted j) \<noteq> NODE_EMPTY"
    by (simp add: exhausted_full)
  with math2_alloc_node_round_robin[of exhausted NODE_TEXT]
  show "math2_alloc_node exhausted NODE_TEXT = (None, exhausted)" by blast
next
  have nf: "next_free math2_init = 1" and t1: "type (nodes math2_init 1) = NODE_EMPTY"
    by (simp_all add: run_defs)
  have "\<exists>j<MAX_NODES. type (nodes math2_init j) = NODE_EMPTY"
    using t1 by (auto simp: MAX_NODES_def intro: exI[of _ 1])
  with math2_alloc_node_round_robin[of math2_init NODE_TEXT]
  obtain i where i: "\<forall>j<i. type (nodes math2_init ((next_free math2_init + j) mod MAX_NODES))
                        \<noteq> NODE_EMPTY"
    and r: "math2_alloc_node math2_init NODE_TEXT =
               (Some ((next_free math2_init + i) mod MAX_NODES),
                math2_init\<lparr> nodes := (nodes math2_init)
                        ((next_free math2_init + i) mod MAX_NODES := zero_node\<lparr> type := NODE_TEXT \<rparr>),
                      next_free := ((next_free math2_init + i) mod MAX_NODES + 1) mod MAX_NODES \<rparr>)"
    by blast
  have "i = 0"
  proof (rule ccontr)
    assume "i \<noteq> 0"
    then have "0 < i" by simp
    with i have "type (nodes math2_init ((next_free math2_init + 0) mod MAX_NODES)) \<noteq> NODE_EMPTY"
      by blast
    with nf t1 show False by (simp add: MAX_NODES_def)
  qed
  with r nf show "math2_alloc_node math2_init NODE_TEXT =
       (Some 1, math2_init\<lparr> nodes := (nodes math2_init)(1 := zero_node\<lparr> type := NODE_TEXT \<rparr>),
                            next_free := 2 \<rparr>)"
    by (simp add: MAX_NODES_def)
qed

subsection \<open>Release\<close>

lemma free_pool_marks_empty:
  "math2_free_node_pool fuel h (Some n) = Some h' \<Longrightarrow> type (h' n) = NODE_EMPTY"
  by (cases fuel) (auto simp: upd_def split: if_splits)

text \<open>
  Claim C7. Releasing a null node, or a node whose type is already Empty, returns the
  state as it was: no pool slot changes and \<open>next_free\<close> keeps its value. Hence a
  second release of the same node, after a release that returned, changes nothing.
\<close>

theorem math2_free_node_idempotent:
  "math2_free_node fuel expr None = Some expr
   \<and> (type (nodes expr n) = NODE_EMPTY \<longrightarrow> math2_free_node fuel expr (Some n) = Some expr)
   \<and> (math2_free_node fuel expr p = Some e1 \<longrightarrow> math2_free_node fuel' e1 p = Some e1)"
proof (intro conjI impI)
  show "math2_free_node fuel expr None = Some expr"
    by (simp add: math2_free_node_def)
  show "math2_free_node fuel expr (Some n) = Some expr" if "type (nodes expr n) = NODE_EMPTY"
    using that by (simp add: math2_free_node_def)
  show "math2_free_node fuel' e1 p = Some e1" if r: "math2_free_node fuel expr p = Some e1"
  proof (cases p)
    case None
    then show ?thesis by (simp add: math2_free_node_def)
  next
    case (Some n)
    from r obtain h' where h': "math2_free_node_pool fuel (nodes expr) (Some n) = Some h'"
      and e1: "e1 = expr\<lparr> nodes := h' \<rparr>"
      by (auto simp: math2_free_node_def Some)
    from free_pool_marks_empty[OF h'] have "type (nodes e1 n) = NODE_EMPTY"
      by (simp add: e1)
    then show ?thesis by (simp add: math2_free_node_def Some)
  qed
qed

theorem math2_free_node_idempotent_witness:
  "type (nodes math2_init 5) = NODE_EMPTY
   \<and> math2_free_node 0 math2_init (Some 5) = Some math2_init
   \<and> math2_free_node 2 one_paren (Some 1) =
       Some (one_paren\<lparr> nodes := (nodes one_paren)
               (2 := (nodes one_paren 2)\<lparr> type := NODE_EMPTY \<rparr>,
                1 := (nodes one_paren 1)\<lparr> type := NODE_EMPTY \<rparr>) \<rparr>)
   \<and> math2_free_node 2
         (one_paren\<lparr> nodes := (nodes one_paren)
               (2 := (nodes one_paren 2)\<lparr> type := NODE_EMPTY \<rparr>,
                1 := (nodes one_paren 1)\<lparr> type := NODE_EMPTY \<rparr>) \<rparr>) (Some 1) =
       Some (one_paren\<lparr> nodes := (nodes one_paren)
               (2 := (nodes one_paren 2)\<lparr> type := NODE_EMPTY \<rparr>,
                1 := (nodes one_paren 1)\<lparr> type := NODE_EMPTY \<rparr>) \<rparr>)"
proof -
  have t: "type (nodes math2_init 5) = NODE_EMPTY"
    by (simp add: run_defs)
  have f: "math2_free_node 2 one_paren (Some 1) =
       Some (one_paren\<lparr> nodes := (nodes one_paren)
               (2 := (nodes one_paren 2)\<lparr> type := NODE_EMPTY \<rparr>,
                1 := (nodes one_paren 1)\<lparr> type := NODE_EMPTY \<rparr>) \<rparr>)"
    by (simp add: math2_free_node_def one_paren_def run_defs numeral_2_eq_2)
  from t math2_free_node_idempotent[of 0 math2_init 5 "Some 1" _ 2]
  have a: "math2_free_node 0 math2_init (Some 5) = Some math2_init" by blast
  from f math2_free_node_idempotent[of 2 one_paren 5 "Some 1" _ 2]
  have b: "math2_free_node 2
         (one_paren\<lparr> nodes := (nodes one_paren)
               (2 := (nodes one_paren 2)\<lparr> type := NODE_EMPTY \<rparr>,
                1 := (nodes one_paren 1)\<lparr> type := NODE_EMPTY \<rparr>) \<rparr>) (Some 1) =
       Some (one_paren\<lparr> nodes := (nodes one_paren)
               (2 := (nodes one_paren 2)\<lparr> type := NODE_EMPTY \<rparr>,
                1 := (nodes one_paren 1)\<lparr> type := NODE_EMPTY \<rparr>) \<rparr>)" by blast
  from t a f b show ?thesis by blast
qed

subsection \<open>Cursor navigation\<close>

lemma enter_slot_frame: "only_cursor_changed expr (snd (enter_slot expr slot place))"
  by (simp add: enter_slot_def only_cursor_changed_def split: option.splits)

lemma exit_to_frame: "exit_to expr place = Some r \<Longrightarrow> only_cursor_changed expr (snd r)"
  by (auto simp: exit_to_def only_cursor_changed_def split: option.splits if_splits)

lemma exit_to_returns: "sequence (cursor expr) \<noteq> None \<Longrightarrow> exit_to expr place \<noteq> None"
  by (auto simp: exit_to_def split: option.splits)

lemma node_ahead_returns: "sequence (cursor expr) \<noteq> None \<Longrightarrow> node_ahead expr \<noteq> None"
  by (auto simp: node_ahead_def split: option.splits)

text \<open>
  Claim C8. With the cursor at the start of its sequence (\<open>after\<close> null) \<open>cursor_left\<close>
  returns false and the state is unchanged. With the cursor at the end of its sequence
  (the node it is after has no next sibling, or \<open>after\<close> is null and the sequence has no
  first child) \<open>cursor_right\<close> returns false and the state is unchanged. With the cursor
  in the root sequence, which has no parent, \<open>cursor_exit_right\<close> returns false. On the
  empty expression \<open>cursor_left\<close> and then \<open>cursor_right\<close> both fail.
\<close>

theorem cursor_boundaries:
  "(after (cursor expr) = None \<longrightarrow> cursor_left expr = (False, expr))
   \<and> (sequence (cursor expr) = Some q
        \<and> (case after (cursor expr) of
              Some a \<Rightarrow> next (nodes expr a) = None
            | None \<Rightarrow> seq_first (nodes expr q) = None)
        \<longrightarrow> cursor_right expr = Some (False, expr))
   \<and> (root expr = Some r \<and> sequence (cursor expr) = Some r \<and> parent (nodes expr r) = None
        \<longrightarrow> cursor_exit_right expr = Some (False, expr))
   \<and> cursor_left math2_init = (False, math2_init)
   \<and> cursor_right math2_init = Some (False, math2_init)
   \<and> cursor_right (snd (cursor_left math2_init)) = Some (False, math2_init)"
proof (intro conjI impI)
  show "cursor_left expr = (False, expr)" if "after (cursor expr) = None"
    using that by (simp add: cursor_left_def)
  show "cursor_right expr = Some (False, expr)"
    if "sequence (cursor expr) = Some q
        \<and> (case after (cursor expr) of
              Some a \<Rightarrow> next (nodes expr a) = None
            | None \<Rightarrow> seq_first (nodes expr q) = None)"
    using that by (auto simp: cursor_right_def node_ahead_def split: option.splits)
  show "cursor_exit_right expr = Some (False, expr)"
    if "root expr = Some r \<and> sequence (cursor expr) = Some r \<and> parent (nodes expr r) = None"
    using that by (simp add: cursor_exit_right_def exit_to_def)
  show l: "cursor_left math2_init = (False, math2_init)"
    by (simp add: cursor_left_def run_defs)
  show r: "cursor_right math2_init = Some (False, math2_init)"
    by (simp add: cursor_right_def node_ahead_def run_defs)
  show "cursor_right (snd (cursor_left math2_init)) = Some (False, math2_init)"
    by (simp add: l r)
qed

theorem cursor_boundaries_witness:
  "cursor_left math2_init = (False, math2_init)
   \<and> cursor_right exhausted = Some (False, exhausted)
   \<and> cursor_exit_right math2_init = Some (False, math2_init)"
proof (intro conjI)
  have "after (cursor math2_init) = None" by (simp add: run_defs)
  with cursor_boundaries[of math2_init] show "cursor_left math2_init = (False, math2_init)"
    by blast
  have "sequence (cursor exhausted) = Some 0
        \<and> (case after (cursor exhausted) of
              Some a \<Rightarrow> next (nodes exhausted a) = None
            | None \<Rightarrow> seq_first (nodes exhausted 0) = None)"
    by (simp add: exhausted_def)
  with cursor_boundaries[of exhausted 0] show "cursor_right exhausted = Some (False, exhausted)"
    by blast
  have "root math2_init = Some 0 \<and> sequence (cursor math2_init) = Some 0
        \<and> parent (nodes math2_init 0) = None"
    by (simp add: run_defs)
  with cursor_boundaries[of math2_init _ 0]
  show "cursor_exit_right math2_init = Some (False, math2_init)"
    by blast
qed

text \<open>
  Claim C10. Each of the ten cursor navigation operations, whether it succeeds or
  fails, leaves the node pool (every node's type, links and contents), the free-scan
  position, the root, the LaTeX buffer and the shift and alpha flags as they were: only
  the cursor can differ. Each of them returns when the cursor's sequence is not null.
\<close>

theorem cursor_ops_frame:
  "only_cursor_changed expr (snd (cursor_left expr))
   \<and> (\<forall>r. cursor_right expr = Some r \<longrightarrow> only_cursor_changed expr (snd r))
   \<and> (\<forall>r. cursor_enter expr = Some r \<longrightarrow> only_cursor_changed expr (snd r))
   \<and> (\<forall>r. cursor_enter_left expr = Some r \<longrightarrow> only_cursor_changed expr (snd r))
   \<and> (\<forall>r. cursor_enter_right expr = Some r \<longrightarrow> only_cursor_changed expr (snd r))
   \<and> (\<forall>r. cursor_exit expr = Some r \<longrightarrow> only_cursor_changed expr (snd r))
   \<and> (\<forall>r. cursor_exit_right expr = Some r \<longrightarrow> only_cursor_changed expr (snd r))
   \<and> (\<forall>r. cursor_exit_left expr = Some r \<longrightarrow> only_cursor_changed expr (snd r))
   \<and> (\<forall>r. cursor_next_slot expr = Some r \<longrightarrow> only_cursor_changed expr (snd r))
   \<and> (\<forall>r. cursor_prev_slot expr = Some r \<longrightarrow> only_cursor_changed expr (snd r))
   \<and> (sequence (cursor expr) \<noteq> None \<longrightarrow>
        cursor_right expr \<noteq> None \<and> cursor_enter expr \<noteq> None
        \<and> cursor_enter_left expr \<noteq> None \<and> cursor_enter_right expr \<noteq> None
        \<and> cursor_exit expr \<noteq> None \<and> cursor_exit_right expr \<noteq> None
        \<and> cursor_exit_left expr \<noteq> None \<and> cursor_next_slot expr \<noteq> None
        \<and> cursor_prev_slot expr \<noteq> None)"
proof (intro conjI allI impI)
  show "only_cursor_changed expr (snd (cursor_left expr))"
    by (simp add: cursor_left_def only_cursor_changed_def split: option.splits)
  show "only_cursor_changed expr (snd r)" if "cursor_right expr = Some r" for r
    using that
    by (auto simp: cursor_right_def only_cursor_changed_def split: option.splits)
  show "only_cursor_changed expr (snd r)" if "cursor_enter expr = Some r" for r
    using that enter_slot_frame[of expr]
    by (auto simp: cursor_enter_def only_cursor_changed_def split: option.splits)
  show "only_cursor_changed expr (snd r)" if "cursor_enter_left expr = Some r" for r
    using that enter_slot_frame[of expr]
    by (auto simp: cursor_enter_left_def only_cursor_changed_def split: option.splits)
  show "only_cursor_changed expr (snd r)" if "cursor_enter_right expr = Some r" for r
    using that enter_slot_frame[of expr]
    by (auto simp: cursor_enter_right_def only_cursor_changed_def split: option.splits)
  show "only_cursor_changed expr (snd r)" if "cursor_exit expr = Some r" for r
    using that by (simp add: cursor_exit_def exit_to_frame)
  show "only_cursor_changed expr (snd r)" if "cursor_exit_right expr = Some r" for r
    using that by (simp add: cursor_exit_right_def exit_to_frame)
  show "only_cursor_changed expr (snd r)" if "cursor_exit_left expr = Some r" for r
    using that by (simp add: cursor_exit_left_def exit_to_frame)
  show "only_cursor_changed expr (snd r)" if "cursor_next_slot expr = Some r" for r
    using that enter_slot_frame[of expr]
    by (auto simp: cursor_next_slot_def only_cursor_changed_def split: option.splits)
  show "only_cursor_changed expr (snd r)" if "cursor_prev_slot expr = Some r" for r
    using that enter_slot_frame[of expr]
    by (auto simp: cursor_prev_slot_def only_cursor_changed_def split: option.splits)
next
  assume s: "sequence (cursor expr) \<noteq> None"
  show "cursor_right expr \<noteq> None"
    using node_ahead_returns[OF s] by (auto simp: cursor_right_def split: option.splits)
  show "cursor_enter expr \<noteq> None"
    using s by (auto simp: cursor_enter_def split: option.splits)
  show "cursor_enter_left expr \<noteq> None"
    using node_ahead_returns[OF s] by (auto simp: cursor_enter_left_def split: option.splits)
  show "cursor_enter_right expr \<noteq> None"
    using node_ahead_returns[OF s] by (auto simp: cursor_enter_right_def split: option.splits)
  show "cursor_exit expr \<noteq> None"
    using exit_to_returns[OF s] by (simp add: cursor_exit_def)
  show "cursor_exit_right expr \<noteq> None"
    using exit_to_returns[OF s] by (simp add: cursor_exit_right_def)
  show "cursor_exit_left expr \<noteq> None"
    using exit_to_returns[OF s] by (simp add: cursor_exit_left_def)
  show "cursor_next_slot expr \<noteq> None"
    using s by (auto simp: cursor_next_slot_def split: option.splits)
  show "cursor_prev_slot expr \<noteq> None"
    using s by (auto simp: cursor_prev_slot_def split: option.splits)
qed

theorem cursor_ops_frame_witness:
  "cursor_exit_right one_paren =
     Some (True, one_paren\<lparr> cursor := \<lparr> sequence = Some 0, after = Some 1 \<rparr> \<rparr>)
   \<and> only_cursor_changed one_paren
        (one_paren\<lparr> cursor := \<lparr> sequence = Some 0, after = Some 1 \<rparr> \<rparr>)
   \<and> cursor_next_slot one_paren = Some (False, one_paren)"
proof -
  have x: "cursor_exit_right one_paren =
     Some (True, one_paren\<lparr> cursor := \<lparr> sequence = Some 0, after = Some 1 \<rparr> \<rparr>)"
    by (simp add: cursor_exit_right_def exit_to_def one_paren_def run_defs)
  have n: "cursor_next_slot one_paren = Some (False, one_paren)"
    by (simp add: cursor_next_slot_def enter_slot_def one_paren_def run_defs)
  from x cursor_ops_frame[of one_paren]
  have "only_cursor_changed one_paren
          (snd (True, one_paren\<lparr> cursor := \<lparr> sequence = Some 0, after = Some 1 \<rparr> \<rparr>))"
    by blast
  with x n show ?thesis by simp
qed

subsection \<open>Counting empty slots\<close>

lemma empty_slots_card:
  "empty_slots expr = card {i. i < MAX_NODES \<and> type (nodes expr i) = NODE_EMPTY}"
proof -
  have "{i. i < length [0..<MAX_NODES] \<and> type (nodes expr ([0..<MAX_NODES] ! i)) = NODE_EMPTY}
        = {i. i < MAX_NODES \<and> type (nodes expr i) = NODE_EMPTY}"
    by auto
  then show ?thesis
    by (simp only: empty_slots_def length_filter_conv_card)
qed

lemma empty_slots_zero:
  "empty_slots expr = 0 \<longleftrightarrow> (\<forall>j<MAX_NODES. type (nodes expr j) \<noteq> NODE_EMPTY)"
  by (auto simp: empty_slots_def filter_empty_conv)

lemma empty_slots_types:
  "(\<And>i. type (nodes e' i) = type (nodes e i)) \<Longrightarrow> empty_slots e' = empty_slots e"
  by (simp add: empty_slots_def)

lemma alloc_count:
  assumes "math2_alloc_node expr t = (Some idx, e')" "t \<noteq> NODE_EMPTY"
  shows "empty_slots expr = Suc (empty_slots e')"
proof -
  let ?A = "{i. i < MAX_NODES \<and> type (nodes expr i) = NODE_EMPTY}"
  from alloc_some[OF assms(1)] have i: "type (nodes expr idx) = NODE_EMPTY" "idx < MAX_NODES"
    and e': "e' = expr\<lparr> nodes := (nodes expr)(idx := zero_node\<lparr> type := t \<rparr>),
                          next_free := (idx + 1) mod MAX_NODES \<rparr>"
    by auto
  have "{i. i < MAX_NODES \<and> type (nodes e' i) = NODE_EMPTY} = ?A - {idx}"
    using assms(2) by (auto simp: e')
  moreover have "idx \<in> ?A" using i by simp
  moreover have "finite ?A" by simp
  ultimately have "card ?A = Suc (card {i. i < MAX_NODES \<and> type (nodes e' i) = NODE_EMPTY})"
    by (simp only: card.remove[of ?A idx])
  then show ?thesis
    by (simp only: empty_slots_card)
qed

text \<open>The two outcomes of an allocation, in terms of the number of empty slots.\<close>

lemma alloc_outcome:
  assumes "t \<noteq> NODE_EMPTY"
  shows "(empty_slots expr = 0 \<and> math2_alloc_node expr t = (None, expr))
       \<or> (\<exists>idx. type (nodes expr idx) = NODE_EMPTY \<and> idx < MAX_NODES
             \<and> math2_alloc_node expr t =
                 (Some idx, expr\<lparr> nodes := (nodes expr)(idx := zero_node\<lparr> type := t \<rparr>),
                                 next_free := (idx + 1) mod MAX_NODES \<rparr>)
             \<and> empty_slots expr =
                 Suc (empty_slots (expr\<lparr> nodes := (nodes expr)(idx := zero_node\<lparr> type := t \<rparr>),
                                        next_free := (idx + 1) mod MAX_NODES \<rparr>)))"
proof (cases "math2_alloc_node expr t")
  case (Pair r e')
  show ?thesis
  proof (cases r)
    case None
    with Pair show ?thesis by (simp add: alloc_none empty_slots_zero)
  next
    case (Some idx)
    from alloc_some[OF Pair[unfolded Some]] alloc_count[OF Pair[unfolded Some] assms] Pair Some
    show ?thesis by auto
  qed
qed

lemma new_sequence_outcome:
  "(empty_slots expr = 0 \<and> math2_new_sequence expr = (None, expr))
   \<or> (\<exists>idx. type (nodes expr idx) = NODE_EMPTY \<and> idx < MAX_NODES
         \<and> math2_new_sequence expr =
             (Some idx, expr\<lparr> nodes := (nodes expr)(idx := zero_node\<lparr> type := NODE_SEQUENCE \<rparr>),
                             next_free := (idx + 1) mod MAX_NODES \<rparr>)
         \<and> empty_slots expr =
             Suc (empty_slots (expr\<lparr> nodes := (nodes expr)(idx := zero_node\<lparr> type := NODE_SEQUENCE \<rparr>),
                                    next_free := (idx + 1) mod MAX_NODES \<rparr>)))"
proof -
  have z: "zero_node\<lparr> type := NODE_SEQUENCE, seq_first := None, seq_last := None \<rparr>
           = zero_node\<lparr> type := NODE_SEQUENCE \<rparr>"
    by (simp add: zero_node_def)
  from alloc_outcome[of NODE_SEQUENCE expr] show ?thesis
    by (auto simp: math2_new_sequence_def upd_def z)
qed


subsection \<open>Sequences as lists\<close>

lemma head_ptr_simps [simp]:
  "head_ptr [] = None" "head_ptr (x # xs) = Some x"
  by (simp_all add: head_ptr_def)

lemma last_ptr_simps [simp]:
  "last_ptr [] = None" "last_ptr (xs @ [x]) = Some x" "last_ptr (x # xs) = Some (last (x # xs))"
  by (simp_all add: last_ptr_def)

lemma head_ptr_append: "head_ptr (xs @ ys) = (if xs = [] then head_ptr ys else head_ptr xs)"
  by (cases xs) simp_all

lemma last_ptr_append: "last_ptr (xs @ ys) = (if ys = [] then last_ptr xs else last_ptr ys)"
  by (simp add: last_ptr_def)

lemma dll_append:
  "dll h q pv (xs @ ys) nx \<longleftrightarrow>
     dll h q pv xs (if ys = [] then nx else head_ptr ys) \<and>
     dll h q (if xs = [] then pv else last_ptr xs) ys nx"
proof (induction xs arbitrary: pv)
  case Nil
  then show ?case by simp
next
  case (Cons x xs)
  show ?case
    by (simp only: append_Cons dll.simps Cons.IH)
       (cases xs; cases ys; auto simp: last_ptr_def)
qed

lemma dll_upd_other [simp]:
  "m \<notin> set xs \<Longrightarrow> dll (h(m := v)) q pv xs nx = dll h q pv xs nx"
  by (induction xs arbitrary: pv) auto

lemma dll_not_seq: "dll h q pv xs nx \<Longrightarrow> type (h q) = NODE_SEQUENCE \<Longrightarrow> q \<notin> set xs"
  by (induction xs arbitrary: pv) auto

lemma dll_live: "dll h q pv xs nx \<Longrightarrow> x \<in> set xs \<Longrightarrow> type (h x) \<noteq> NODE_EMPTY"
  by (induction xs arbitrary: pv) auto

lemma seq_insert_after_holds:
  assumes sh: "seq_holds h q (xs @ ys)"
    and n: "n \<notin> set (xs @ ys)" "type (h n) \<noteq> NODE_EMPTY" "type (h n) \<noteq> NODE_SEQUENCE"
  shows "seq_holds (seq_insert_after h (Some q) (last_ptr xs) (Some n)) q (xs @ n # ys)
         \<and> (\<forall>m. m \<notin> set (xs @ ys) \<and> m \<noteq> q \<and> m \<noteq> n \<longrightarrow>
                seq_insert_after h (Some q) (last_ptr xs) (Some n) m = h m)"
proof -
  from sh have q: "type (h q) = NODE_SEQUENCE" and d: "distinct (xs @ ys)"
    and f: "seq_first (h q) = head_ptr (xs @ ys)" and l: "seq_last (h q) = last_ptr (xs @ ys)"
    and dl: "dll h q None (xs @ ys) None"
    by (simp_all add: seq_holds_def)
  from dll_not_seq[OF dl q] have qx: "q \<notin> set xs" "q \<notin> set ys" by auto
  from n q have nq: "n \<noteq> q" by auto
  from n have nx: "n \<notin> set xs" "n \<notin> set ys" by auto
  from dl have dx: "dll h q None xs (if ys = [] then None else head_ptr ys)"
    and dy: "dll h q (if xs = [] then None else last_ptr xs) ys None"
    by (simp_all add: dll_append)
  let ?h' = "seq_insert_after h (Some q) (last_ptr xs) (Some n)"
  show ?thesis
  proof (cases xs rule: rev_cases)
    case Nil
    show ?thesis
    proof (cases ys)
      case ysNil: Nil
      have "?h' = h(n := (h n)\<lparr> parent := Some q, prev := None, next := None \<rparr>,
                    q := (h q)\<lparr> seq_first := Some n, seq_last := Some n \<rparr>)"
        using Nil ysNil q f l nq
        by (simp add: seq_insert_after_def upd_def Let_def fun_upd_twist)
      then show ?thesis
        using Nil ysNil q nq n by (simp add: seq_holds_def)
    next
      case (Cons y ys')
      from Cons qx nx have yn: "y \<noteq> n" "y \<noteq> q" by auto
      have "?h' = h(n := (h n)\<lparr> parent := Some q, prev := None, next := Some y \<rparr>,
                    y := (h y)\<lparr> prev := Some n \<rparr>,
                    q := (h q)\<lparr> seq_first := Some n \<rparr>)"
        using Nil Cons q f l nq yn
        by (simp add: seq_insert_after_def upd_def Let_def)
      then show ?thesis
        using Nil Cons q nq n yn d dy qx nx l by (simp add: seq_holds_def)
    qed
  next
    case (snoc xs' a)
    from snoc qx nx have an: "a \<noteq> n" "a \<noteq> q" by auto
    from snoc have lp: "last_ptr xs = Some a" by simp
    from dx snoc have dxs': "dll h q None xs' (Some a)"
      and da: "parent (h a) = Some q" "type (h a) \<noteq> NODE_EMPTY" "type (h a) \<noteq> NODE_SEQUENCE"
        "prev (h a) = last_ptr xs'" "next (h a) = head_ptr ys"
      by (auto simp: dll_append head_ptr_def split: list.splits)
    from d snoc have axs: "a \<notin> set xs'" "a \<notin> set ys" by auto
    from nx snoc have nxs: "n \<notin> set xs'" by auto
    from qx snoc have qxs: "q \<notin> set xs'" by auto
    show ?thesis
    proof (cases ys)
      case ysNil: Nil
      have "?h' = h(n := (h n)\<lparr> parent := Some q, prev := Some a, next := None \<rparr>,
                    a := (h a)\<lparr> next := Some n \<rparr>,
                    q := (h q)\<lparr> seq_last := Some n \<rparr>)"
        using snoc ysNil q f l nq an da
        by (simp add: lp seq_insert_after_def upd_def Let_def)
      then show ?thesis
        using snoc ysNil q nq n an d da dxs' axs nxs qxs f
        by (simp add: seq_holds_def dll_append head_ptr_append last_ptr_append)
    next
      case (Cons y ys')
      from Cons qx nx axs have yn: "y \<noteq> n" "y \<noteq> q" "y \<noteq> a" by auto
      from d snoc Cons have yxs: "y \<notin> set xs'" "y \<notin> set ys'" by auto
      from d snoc Cons have la: "last (y # ys') \<noteq> a" using axs Cons
        by (metis last_in_set list.distinct(1))
      have "?h' = h(n := (h n)\<lparr> parent := Some q, prev := Some a, next := Some y \<rparr>,
                    y := (h y)\<lparr> prev := Some n \<rparr>,
                    a := (h a)\<lparr> next := Some n \<rparr>)"
        using snoc Cons q f l nq an da yn la
        by (simp add: lp seq_insert_after_def upd_def Let_def last_ptr_append)
      then show ?thesis
        using snoc Cons q nq n an d da dxs' dy axs nxs qxs nx f l yn yxs
        by (simp add: seq_holds_def dll_append head_ptr_append last_ptr_append)
    qed
  qed
qed


lemma seq_remove_holds:
  assumes sh: "seq_holds h q (xs @ a # ys)"
  shows "seq_holds (seq_remove h (Some a)) q (xs @ ys)
         \<and> parent (seq_remove h (Some a) a) = None
         \<and> prev (seq_remove h (Some a) a) = None
         \<and> next (seq_remove h (Some a) a) = None
         \<and> (\<forall>m. m \<notin> set (xs @ a # ys) \<and> m \<noteq> q \<longrightarrow> seq_remove h (Some a) m = h m)"
proof -
  from sh have q: "type (h q) = NODE_SEQUENCE" and d: "distinct (xs @ a # ys)"
    and f: "seq_first (h q) = head_ptr (xs @ a # ys)"
    and l: "seq_last (h q) = last_ptr (xs @ a # ys)"
    and dl: "dll h q None (xs @ a # ys) None"
    by (simp_all add: seq_holds_def)
  from dll_not_seq[OF dl q] have qx: "q \<notin> set xs" "q \<notin> set ys" "q \<noteq> a" by auto
  from d have ax: "a \<notin> set xs" "a \<notin> set ys" "distinct xs" "distinct ys"
    "set xs \<inter> set ys = {}" by auto
  from dl have dx: "dll h q None xs (Some a)"
    and da: "parent (h a) = Some q" "prev (h a) = last_ptr xs" "next (h a) = head_ptr ys"
    and dy: "dll h q (Some a) ys None"
    by (simp_all add: dll_append head_ptr_def last_ptr_def)
  let ?h' = "seq_remove h (Some a)"
  show ?thesis
  proof (cases xs rule: rev_cases)
    case Nil
    show ?thesis
    proof (cases ys)
      case ysNil: Nil
      have "?h' = h(q := (h q)\<lparr> seq_first := None, seq_last := None \<rparr>,
                    a := (h a)\<lparr> parent := None, prev := None, next := None \<rparr>)"
        using Nil ysNil q da qx by (simp add: seq_remove_def upd_def Let_def)
      then show ?thesis
        using Nil ysNil q qx by (simp add: seq_holds_def)
    next
      case (Cons y ys')
      from Cons qx ax have yn: "y \<noteq> a" "y \<noteq> q" by auto
      from d Cons have yys: "y \<notin> set ys'" "a \<notin> set ys'" "distinct ys'" by auto
      from qx Cons have qys: "q \<notin> set ys'" by auto
      from dy Cons have dy': "parent (h y) = Some q" "type (h y) \<noteq> NODE_EMPTY"
        "type (h y) \<noteq> NODE_SEQUENCE" "dll h q (Some y) ys' None"
        "next (h y) = (case ys' of [] \<Rightarrow> None | z # _ \<Rightarrow> Some z)"
        by simp_all
      have "?h' = h(q := (h q)\<lparr> seq_first := Some y \<rparr>,
                    y := (h y)\<lparr> prev := None \<rparr>,
                    a := (h a)\<lparr> parent := None, prev := None, next := None \<rparr>)"
        using Nil Cons q da qx yn by (simp add: seq_remove_def upd_def Let_def)
      then show ?thesis
        using Nil Cons q qx yn yys qys dy' l
        by (simp add: seq_holds_def)
    qed
  next
    case (snoc xs' p)
    from snoc qx ax have pn: "p \<noteq> a" "p \<noteq> q" by auto
    from dx snoc have dxs': "dll h q None xs' (Some p)"
      and dp: "parent (h p) = Some q" "type (h p) \<noteq> NODE_EMPTY" "type (h p) \<noteq> NODE_SEQUENCE"
        "prev (h p) = last_ptr xs'"
      by (simp_all add: dll_append last_ptr_def)
    from d snoc have pxs: "p \<notin> set xs'" "p \<notin> set ys" "distinct xs'" "a \<notin> set xs'" by auto
    from qx snoc have qxs: "q \<notin> set xs'" by auto
    from da snoc have pa: "prev (h a) = Some p" by simp
    show ?thesis
    proof (cases ys)
      case ysNil: Nil
      have "?h' = h(p := (h p)\<lparr> next := None \<rparr>,
                    q := (h q)\<lparr> seq_last := Some p \<rparr>,
                    a := (h a)\<lparr> parent := None, prev := None, next := None \<rparr>)"
        using snoc ysNil q da pa qx pn by (simp add: seq_remove_def upd_def Let_def)
      then show ?thesis
        using snoc ysNil q qx pn dp dxs' pxs qxs f
        by (simp add: seq_holds_def dll_append head_ptr_append)
    next
      case (Cons y ys')
      from Cons qx ax pxs have yn: "y \<noteq> a" "y \<noteq> q" "y \<noteq> p" by auto
      from d snoc Cons have yxs: "y \<notin> set xs'" "y \<notin> set ys'" "p \<notin> set ys'"
        "a \<notin> set ys'" "distinct ys'" "set xs' \<inter> set ys' = {}" by auto
      from qx Cons have qys: "q \<notin> set ys'" by auto
      from dy Cons have dy': "parent (h y) = Some q" "type (h y) \<noteq> NODE_EMPTY"
        "type (h y) \<noteq> NODE_SEQUENCE" "dll h q (Some y) ys' None"
        "next (h y) = (case ys' of [] \<Rightarrow> None | z # _ \<Rightarrow> Some z)"
        by simp_all
      have "?h' = h(p := (h p)\<lparr> next := Some y \<rparr>,
                    y := (h y)\<lparr> prev := Some p \<rparr>,
                    a := (h a)\<lparr> parent := None, prev := None, next := None \<rparr>)"
        using snoc Cons q da pa qx pn yn by (simp add: seq_remove_def upd_def Let_def)
      then show ?thesis
        using snoc Cons q qx pn dp dxs' pxs qxs f l yn yxs dy' qys
        by (simp add: seq_holds_def dll_append head_ptr_append last_ptr_append)
    qed
  qed
qed

lemma seq_holds_frame:
  "seq_holds h q xs \<Longrightarrow> h' q = h q \<Longrightarrow> (\<forall>x\<in>set xs. h' x = h x) \<Longrightarrow> seq_holds h' q xs"
proof -
  have "dll h q pv xs nx \<Longrightarrow> (\<forall>x\<in>set xs. h' x = h x) \<Longrightarrow> dll h' q pv xs nx" for pv nx
    by (induction xs arbitrary: pv) auto
  then show "seq_holds h q xs \<Longrightarrow> h' q = h q \<Longrightarrow> (\<forall>x\<in>set xs. h' x = h x) \<Longrightarrow> seq_holds h' q xs"
    by (simp add: seq_holds_def)
qed

lemma upd_keeps:
  "(\<And>x. type (f x) = type x) \<Longrightarrow> type (upd h p f m) = type (h m)"
  "(\<And>x. exp_base (f x) = exp_base x) \<Longrightarrow> exp_base (upd h p f m) = exp_base (h m)"
  "(\<And>x. exp_power (f x) = exp_power x) \<Longrightarrow> exp_power (upd h p f m) = exp_power (h m)"
  by (simp_all add: upd_def)

lemma seq_insert_after_payload:
  "type (seq_insert_after h s a n m) = type (h m)"
  "exp_base (seq_insert_after h s a n m) = exp_base (h m)"
  "exp_power (seq_insert_after h s a n m) = exp_power (h m)"
  by (simp_all add: seq_insert_after_def Let_def upd_keeps split: option.splits)

lemma seq_remove_payload:
  "type (seq_remove h n m) = type (h m)"
  "exp_base (seq_remove h n m) = exp_base (h m)"
  "exp_power (seq_remove h n m) = exp_power (h m)"
  by (simp_all add: seq_remove_def Let_def upd_keeps split: option.splits)

subsection \<open>Evaluating runs\<close>

lemma chain_eval:
  "chain (numeral k) h (Some n) = map_option ((#) n) (chain (pred_numeral k) h (next (h n)))"
  by (simp add: numeral_eq_Suc)

lemma latex_fuel_eval:
  "latex_node (numeral k) h (Some n) buf =
     (if type (h n) = NODE_SEQUENCE then latex_sequence (pred_numeral k) h (Some n) buf
      else latex_run (pred_numeral k) h (latex_steps (h n)) buf)"
  "latex_children (numeral k) h (Some c) buf =
     (case latex_node (pred_numeral k) h (Some c) buf of
        None \<Rightarrow> None
      | Some b \<Rightarrow> latex_children (pred_numeral k) h (next (h c)) b)"
  by (simp_all add: numeral_eq_Suc)


lemmas frac_defs = math2_insert_fraction_def collect_walk.simps move_nodes.simps IS_OPERATOR_def

lemma typed_123_fraction_run: "math2_insert_fraction typed_123 = Some typed_123_fraction"
  by (simp add: typed_123_def typed_123_fraction_def frac_defs run_defs fun_eq_iff)

lemma typed_1_plus_2_fraction_run:
  "math2_insert_fraction typed_1_plus_2 = Some typed_1_plus_2_fraction"
  by (simp add: typed_1_plus_2_def typed_1_plus_2_fraction_def frac_defs run_defs fun_eq_iff)

lemma plus_then_left_run: "cursor_left typed_1_plus_2 = (True, plus_then_left)"
  by (simp add: plus_then_left_def typed_1_plus_2_def cursor_left_def run_defs)

lemma plus_then_left_fraction_run:
  "math2_insert_fraction plus_then_left = Some typed_1_plus_2_fraction"
  by (simp add: plus_then_left_def typed_1_plus_2_def typed_1_plus_2_fraction_def frac_defs
        run_defs fun_eq_iff)

lemma sin_then_exit_run:
  "cursor_exit (math2_insert_function math2_init ''sin'') = Some (True, sin_then_exit)"
  by (simp add: sin_then_exit_def cursor_exit_def exit_to_def math2_insert_function_def run_defs)

lemma sin_fraction_run: "math2_insert_fraction sin_then_exit = Some sin_fraction"
  by (simp add: sin_then_exit_def sin_fraction_def math2_insert_function_def frac_defs
        run_defs fun_eq_iff)

subsection \<open>Fraction\<close>

text \<open>
  Claim C1, at two inputs where the code departs from it. The claim holds in its own
  example: with "1", "+", "2" before the cursor only "2" becomes the numerator. But
  with the cursor between "+" and "2" (nothing collectable before it, since the node
  before it is an operator) \<open>math2_insert_fraction\<close> moves "2", which stands after the
  cursor, into the numerator and puts the cursor into the denominator; and with a
  Function node before the cursor, a kind outside the admitted ones, that node is
  moved into the numerator.
\<close>

theorem math2_insert_fraction_collection_defects:
  "math2_insert_fraction typed_1_plus_2 = Some typed_1_plus_2_fraction
   \<and> seq_children typed_1_plus_2_fraction 0 = Some [1, 2, 4]
   \<and> seq_children typed_1_plus_2_fraction 5 = Some [3]
   \<and> cursor_left typed_1_plus_2 = (True, plus_then_left)
   \<and> cursor plus_then_left = \<lparr> sequence = Some 0, after = Some 2 \<rparr>
   \<and> seq_children plus_then_left 0 = Some [1, 2, 3]
   \<and> IS_OPERATOR (nodes plus_then_left 2)
   \<and> math2_insert_fraction plus_then_left = Some typed_1_plus_2_fraction
   \<and> frac_numer (nodes typed_1_plus_2_fraction 4) = Some 5
   \<and> cursor typed_1_plus_2_fraction = \<lparr> sequence = Some 6, after = None \<rparr>
   \<and> cursor_exit (math2_insert_function math2_init ''sin'') = Some (True, sin_then_exit)
   \<and> cursor sin_then_exit = \<lparr> sequence = Some 0, after = Some 1 \<rparr>
   \<and> type (nodes sin_then_exit 1) = NODE_FUNCTION
   \<and> math2_insert_fraction sin_then_exit = Some sin_fraction
   \<and> frac_numer (nodes sin_fraction 3) = Some 4
   \<and> seq_children sin_fraction 4 = Some [1]
   \<and> seq_children sin_fraction 0 = Some [3]"
proof (intro conjI)
  show "math2_insert_fraction typed_1_plus_2 = Some typed_1_plus_2_fraction"
    by (rule typed_1_plus_2_fraction_run)
  show "cursor_left typed_1_plus_2 = (True, plus_then_left)"
    by (rule plus_then_left_run)
  show "math2_insert_fraction plus_then_left = Some typed_1_plus_2_fraction"
    by (rule plus_then_left_fraction_run)
  show "cursor_exit (math2_insert_function math2_init ''sin'') = Some (True, sin_then_exit)"
    by (rule sin_then_exit_run)
  show "math2_insert_fraction sin_then_exit = Some sin_fraction"
    by (rule sin_fraction_run)
  show "seq_children typed_1_plus_2_fraction 0 = Some [1, 2, 4]"
    "seq_children typed_1_plus_2_fraction 5 = Some [3]"
    "frac_numer (nodes typed_1_plus_2_fraction 4) = Some 5"
    "cursor typed_1_plus_2_fraction = \<lparr> sequence = Some 6, after = None \<rparr>"
    by (simp_all add: seq_children_def typed_1_plus_2_fraction_def chain_eval zero_node_def
          MAX_NODES_def)
  show "cursor plus_then_left = \<lparr> sequence = Some 0, after = Some 2 \<rparr>"
    "seq_children plus_then_left 0 = Some [1, 2, 3]"
    "IS_OPERATOR (nodes plus_then_left 2)"
    by (simp_all add: plus_then_left_def typed_1_plus_2_def seq_children_def chain_eval
          IS_OPERATOR_def run_defs)
  show "cursor sin_then_exit = \<lparr> sequence = Some 0, after = Some 1 \<rparr>"
    "type (nodes sin_then_exit 1) = NODE_FUNCTION"
    by (simp_all add: sin_then_exit_def math2_insert_function_def run_defs)
  show "frac_numer (nodes sin_fraction 3) = Some 4"
    "seq_children sin_fraction 4 = Some [1]"
    "seq_children sin_fraction 0 = Some [3]"
    by (simp_all add: seq_children_def sin_fraction_def chain_eval zero_node_def MAX_NODES_def)
qed

text \<open>
  Claim C2 as stated fails: after "1", "2", "3" the fraction's numerator is not empty
  and the cursor is not in the numerator slot.
\<close>

theorem fraction_after_123_counterexample:
  "math2_insert_fraction typed_123 = Some typed_123_fraction
   \<and> type (nodes typed_123_fraction 4) = NODE_FRACTION
   \<and> frac_numer (nodes typed_123_fraction 4) = Some 5
   \<and> \<not> seq_is_empty (nodes typed_123_fraction) (Some 5)
   \<and> sequence (cursor typed_123_fraction) \<noteq> Some 5"
  using typed_123_fraction_run
  by (simp add: typed_123_fraction_def seq_is_empty_def zero_node_def)

text \<open>
  Claim C2, amended. Starting from the empty expression, inserting the digit text nodes
  "1", "2", "3" and then calling \<open>math2_insert_fraction\<close> yields a fraction that is the
  only child of the root, whose numerator holds the three digit nodes in their order,
  whose denominator is empty, with the cursor at the start of the denominator slot.
\<close>

theorem fraction_after_123_collects_digits:
  "math2_insert_fraction typed_123 = Some typed_123_fraction
   \<and> seq_children typed_123_fraction 0 = Some [4]
   \<and> type (nodes typed_123_fraction 4) = NODE_FRACTION
   \<and> frac_numer (nodes typed_123_fraction 4) = Some 5
   \<and> seq_children typed_123_fraction 5 = Some [1, 2, 3]
   \<and> map (\<lambda>n. text_text (nodes typed_123_fraction n)) [1, 2, 3] = [''1'', ''2'', ''3'']
   \<and> frac_denom (nodes typed_123_fraction 4) = Some 6
   \<and> seq_is_empty (nodes typed_123_fraction) (Some 6)
   \<and> cursor typed_123_fraction = \<lparr> sequence = Some 6, after = None \<rparr>"
  using typed_123_fraction_run
  by (simp add: seq_children_def typed_123_fraction_def chain_eval seq_is_empty_def
        zero_node_def MAX_NODES_def)

subsection \<open>Exponent\<close>

lemma seq_holds_empty:
  "seq_holds h q [] \<longleftrightarrow> type (h q) = NODE_SEQUENCE \<and> seq_first (h q) = None \<and> seq_last (h q) = None"
  by (simp add: seq_holds_def)

lemma dll_kind: "dll h q pv xs nx \<Longrightarrow> x \<in> set xs \<Longrightarrow> type (h x) \<noteq> NODE_SEQUENCE"
  by (induction xs arbitrary: pv) auto

lemma seq_holds_child:
  assumes "seq_holds h q xs" "x \<in> set xs"
  shows "type (h x) \<noteq> NODE_EMPTY" "type (h x) \<noteq> NODE_SEQUENCE" "x \<noteq> q"
  using assms dll_live[of h q None xs None x] dll_kind[of h q None xs None x]
  by (auto simp: seq_holds_def)

lemma seq_holds_last_prev:
  "seq_holds h q (xs @ a # ys) \<Longrightarrow> prev (h a) = last_ptr xs"
  by (simp add: seq_holds_def dll_append last_ptr_def)

text \<open>The three allocations of an exponent, when the pool has room for them.\<close>

lemma exponent_allocations:
  assumes "3 \<le> empty_slots expr"
  obtains ex b pw where
    "type (nodes expr ex) = NODE_EMPTY" "type (nodes expr b) = NODE_EMPTY"
    "type (nodes expr pw) = NODE_EMPTY" "ex \<noteq> b" "ex \<noteq> pw" "b \<noteq> pw"
    "math2_insert_exponent expr =
       (let h7 = (nodes expr)
                   (ex := zero_node\<lparr> type := NODE_EXPONENT, exp_base := Some b, exp_power := Some pw \<rparr>,
                    b := zero_node\<lparr> type := NODE_SEQUENCE, parent := Some ex \<rparr>,
                    pw := zero_node\<lparr> type := NODE_SEQUENCE, parent := Some ex \<rparr>);
            (aft, h8) =
              (case after (cursor expr) of
                 Some a \<Rightarrow>
                   if exponent_base_kind (type (h7 a))
                   then (prev (h7 a),
                         seq_insert_after (seq_remove h7 (Some a))
                           (exp_base (seq_remove h7 (Some a) ex)) None (Some a))
                   else (Some a, h7)
               | None \<Rightarrow> (None, h7));
            h9 = seq_insert_after h8 (sequence (cursor expr)) aft (Some ex)
        in expr\<lparr> nodes := h9, next_free := (pw + 1) mod MAX_NODES,
                  cursor := \<lparr> sequence = exp_power (h9 ex), after = None \<rparr>,
                  shift_mode := False, alpha_mode := False \<rparr>)"
proof -
  from alloc_outcome[of NODE_EXPONENT expr] assms
  obtain ex where ex: "type (nodes expr ex) = NODE_EMPTY"
    and a1: "math2_alloc_node expr NODE_EXPONENT =
               (Some ex, expr\<lparr> nodes := (nodes expr)(ex := zero_node\<lparr> type := NODE_EXPONENT \<rparr>),
                              next_free := (ex + 1) mod MAX_NODES \<rparr>)"
    and c1: "empty_slots expr =
               Suc (empty_slots (expr\<lparr> nodes := (nodes expr)(ex := zero_node\<lparr> type := NODE_EXPONENT \<rparr>),
                              next_free := (ex + 1) mod MAX_NODES \<rparr>))"
    by auto
  let ?e1 = "expr\<lparr> nodes := (nodes expr)(ex := zero_node\<lparr> type := NODE_EXPONENT \<rparr>),
                   next_free := (ex + 1) mod MAX_NODES \<rparr>"
  from new_sequence_outcome[of ?e1] assms c1
  obtain b where b: "type (nodes ?e1 b) = NODE_EMPTY"
    and a2: "math2_new_sequence ?e1 =
               (Some b, ?e1\<lparr> nodes := (nodes ?e1)(b := zero_node\<lparr> type := NODE_SEQUENCE \<rparr>),
                             next_free := (b + 1) mod MAX_NODES \<rparr>)"
    and c2: "empty_slots ?e1 =
               Suc (empty_slots (?e1\<lparr> nodes := (nodes ?e1)(b := zero_node\<lparr> type := NODE_SEQUENCE \<rparr>),
                             next_free := (b + 1) mod MAX_NODES \<rparr>))"
    by auto
  let ?e2 = "?e1\<lparr> nodes := (nodes ?e1)(b := zero_node\<lparr> type := NODE_SEQUENCE \<rparr>),
                   next_free := (b + 1) mod MAX_NODES \<rparr>"
  let ?e3 = "?e2\<lparr> nodes := upd (nodes ?e2) ex (\<lambda>x. x\<lparr> exp_base := Some b \<rparr>) \<rparr>"
  have "empty_slots ?e3 = empty_slots ?e2"
    by (rule empty_slots_types) (simp add: upd_def)
  with assms c1 c2 have "empty_slots ?e3 \<noteq> 0" by simp
  with new_sequence_outcome[of ?e3]
  obtain pw where pw: "type (nodes ?e3 pw) = NODE_EMPTY"
    and a3: "math2_new_sequence ?e3 =
               (Some pw, ?e3\<lparr> nodes := (nodes ?e3)(pw := zero_node\<lparr> type := NODE_SEQUENCE \<rparr>),
                              next_free := (pw + 1) mod MAX_NODES \<rparr>)"
    by auto
  from b have bex: "ex \<noteq> b" and b0: "type (nodes expr b) = NODE_EMPTY"
    by (auto split: if_splits)
  from pw bex have pwex: "ex \<noteq> pw" and pwb: "b \<noteq> pw" and pw0: "type (nodes expr pw) = NODE_EMPTY"
    by (auto simp: upd_def split: if_splits)
  have "math2_insert_exponent expr =
       (let h7 = (nodes expr)
                   (ex := zero_node\<lparr> type := NODE_EXPONENT, exp_base := Some b, exp_power := Some pw \<rparr>,
                    b := zero_node\<lparr> type := NODE_SEQUENCE, parent := Some ex \<rparr>,
                    pw := zero_node\<lparr> type := NODE_SEQUENCE, parent := Some ex \<rparr>);
            (aft, h8) =
              (case after (cursor expr) of
                 Some a \<Rightarrow>
                   if exponent_base_kind (type (h7 a))
                   then (prev (h7 a),
                         seq_insert_after (seq_remove h7 (Some a))
                           (exp_base (seq_remove h7 (Some a) ex)) None (Some a))
                   else (Some a, h7)
               | None \<Rightarrow> (None, h7));
            h9 = seq_insert_after h8 (sequence (cursor expr)) aft (Some ex)
        in expr\<lparr> nodes := h9, next_free := (pw + 1) mod MAX_NODES,
                  cursor := \<lparr> sequence = exp_power (h9 ex), after = None \<rparr>,
                  shift_mode := False, alpha_mode := False \<rparr>)"
    unfolding math2_insert_exponent_def a1
    using bex pwex pwb
    by (simp only: Let_def prod.case option.case a2 a3)
       (simp add: Let_def upd_def math2_clear_modes_def exponent_base_kind_def
          fun_upd_twist split: option.splits)
  with ex b0 pw0 bex pwex pwb that show thesis by blast
qed


lemma insert_exponent_on_sequence:
  assumes slots: "3 \<le> empty_slots expr"
    and cs: "sequence (cursor expr) = Some q"
    and ca: "after (cursor expr) = last_ptr xs"
    and sh: "seq_holds (nodes expr) q (xs @ ys)"
  shows "\<exists>ex b pw.
      type (nodes expr ex) = NODE_EMPTY \<and> type (nodes expr b) = NODE_EMPTY \<and>
      type (nodes expr pw) = NODE_EMPTY \<and>
      type (nodes (math2_insert_exponent expr) ex) = NODE_EXPONENT \<and>
      exp_base (nodes (math2_insert_exponent expr) ex) = Some b \<and>
      exp_power (nodes (math2_insert_exponent expr) ex) = Some pw \<and>
      cursor (math2_insert_exponent expr) = \<lparr> sequence = Some pw, after = None \<rparr> \<and>
      seq_holds (nodes (math2_insert_exponent expr)) pw [] \<and>
      (if xs \<noteq> [] \<and> exponent_base_kind (type (nodes expr (last xs)))
       then seq_holds (nodes (math2_insert_exponent expr)) b [last xs] \<and>
            seq_holds (nodes (math2_insert_exponent expr)) q (butlast xs @ ex # ys)
       else seq_holds (nodes (math2_insert_exponent expr)) b [] \<and>
            seq_holds (nodes (math2_insert_exponent expr)) q (xs @ ex # ys))"
proof -
  from exponent_allocations[OF slots] obtain ex b pw where
    fresh: "type (nodes expr ex) = NODE_EMPTY" "type (nodes expr b) = NODE_EMPTY"
      "type (nodes expr pw) = NODE_EMPTY"
    and ne: "ex \<noteq> b" "ex \<noteq> pw" "b \<noteq> pw"
    and run: "math2_insert_exponent expr =
       (let h7 = (nodes expr)
                   (ex := zero_node\<lparr> type := NODE_EXPONENT, exp_base := Some b, exp_power := Some pw \<rparr>,
                    b := zero_node\<lparr> type := NODE_SEQUENCE, parent := Some ex \<rparr>,
                    pw := zero_node\<lparr> type := NODE_SEQUENCE, parent := Some ex \<rparr>);
            (aft, h8) =
              (case after (cursor expr) of
                 Some a \<Rightarrow>
                   if exponent_base_kind (type (h7 a))
                   then (prev (h7 a),
                         seq_insert_after (seq_remove h7 (Some a))
                           (exp_base (seq_remove h7 (Some a) ex)) None (Some a))
                   else (Some a, h7)
               | None \<Rightarrow> (None, h7));
            h9 = seq_insert_after h8 (sequence (cursor expr)) aft (Some ex)
        in expr\<lparr> nodes := h9, next_free := (pw + 1) mod MAX_NODES,
                  cursor := \<lparr> sequence = exp_power (h9 ex), after = None \<rparr>,
                  shift_mode := False, alpha_mode := False \<rparr>)"
    by blast
  define h7 where "h7 = (nodes expr)
                   (ex := zero_node\<lparr> type := NODE_EXPONENT, exp_base := Some b, exp_power := Some pw \<rparr>,
                    b := zero_node\<lparr> type := NODE_SEQUENCE, parent := Some ex \<rparr>,
                    pw := zero_node\<lparr> type := NODE_SEQUENCE, parent := Some ex \<rparr>)"
  have old: "h7 m = nodes expr m" if "type (nodes expr m) \<noteq> NODE_EMPTY" for m
    using that fresh by (auto simp: h7_def)
  have h7ex: "type (h7 ex) = NODE_EXPONENT" "exp_base (h7 ex) = Some b" "exp_power (h7 ex) = Some pw"
    using ne by (simp_all add: h7_def)
  have h7b: "seq_holds h7 b []" and h7pw: "seq_holds h7 pw []"
    using ne by (simp_all add: h7_def seq_holds_empty zero_node_def)
  from sh have qlive: "type (nodes expr q) \<noteq> NODE_EMPTY" by (simp add: seq_holds_def)
  have live: "type (nodes expr x) \<noteq> NODE_EMPTY" if "x \<in> set (xs @ ys)" for x
    using seq_holds_child(1)[OF sh that] .
  have h7q: "seq_holds h7 q (xs @ ys)"
    by (rule seq_holds_frame[OF sh]) (use old qlive live in auto)
  have nq: "q \<noteq> ex" "q \<noteq> b" "q \<noteq> pw" using qlive fresh by auto
  have nl: "ex \<notin> set (xs @ ys)" "b \<notin> set (xs @ ys)" "pw \<notin> set (xs @ ys)"
    using live fresh by auto
  show ?thesis
  proof (cases "xs \<noteq> [] \<and> exponent_base_kind (type (nodes expr (last xs)))")
    case True
    then obtain xs' a where xs: "xs = xs' @ [a]" and kind: "exponent_base_kind (type (nodes expr a))"
      by (cases xs rule: rev_cases) auto
    from xs nl have an: "a \<noteq> ex" "a \<noteq> b" "a \<noteq> pw" by auto
    from xs live have alive: "type (nodes expr a) \<noteq> NODE_EMPTY" by simp
    from h7q xs have h7q': "seq_holds h7 q (xs' @ a # ys)" by simp
    have h7a: "type (h7 a) = type (nodes expr a)" using old[OF alive] by simp
    define g where "g = seq_remove h7 (Some a)"
    from seq_remove_holds[OF h7q'] have gq: "seq_holds g q (xs' @ ys)"
      and gfr: "\<And>m. m \<notin> set (xs' @ a # ys) \<Longrightarrow> m \<noteq> q \<Longrightarrow> g m = h7 m"
      by (simp_all add: g_def)
    from xs nl nq have gex: "g ex = h7 ex" and gb: "g b = h7 b" and gpw: "g pw = h7 pw"
      by (auto intro!: gfr)
    have ga: "type (g a) \<noteq> NODE_EMPTY" "type (g a) \<noteq> NODE_SEQUENCE"
      using seq_holds_child(1,2)[OF h7q', of a] by (simp_all add: g_def seq_remove_payload)
    have gb0: "seq_holds g b ([] @ [])"
      using seq_holds_frame[OF h7b, of g] gb by simp
    define h8 where "h8 = seq_insert_after g (Some b) None (Some a)"
    from seq_insert_after_holds[OF gb0, of a] ga
    have h8b: "seq_holds h8 b [a]"
      and h8fr: "\<And>m. m \<noteq> b \<Longrightarrow> m \<noteq> a \<Longrightarrow> h8 m = g m"
      by (simp_all add: h8_def)
    from seq_holds_child[OF h7q', of a] have aq: "a \<noteq> q" by simp
    from h7q' have axy: "a \<notin> set (xs' @ ys)" by (auto simp: seq_holds_def)
    have "h8 x = g x" if "x \<in> set (xs' @ ys)" for x
    proof -
      from that axy have "x \<noteq> a" by auto
      moreover from that nl xs have "x \<noteq> b" by auto
      ultimately show ?thesis by (rule h8fr[rotated])
    qed
    moreover have "h8 q = g q" using h8fr[of q] nq aq by simp
    ultimately have h8q: "seq_holds h8 q (xs' @ ys)"
      using seq_holds_frame[OF gq, of h8] by blast
    have h8ex: "type (h8 ex) \<noteq> NODE_EMPTY" "type (h8 ex) \<noteq> NODE_SEQUENCE"
      using h7ex by (simp_all add: h8_def g_def seq_insert_after_payload seq_remove_payload)
    define h9 where "h9 = seq_insert_after h8 (Some q) (last_ptr xs') (Some ex)"
    from xs nl have exn: "ex \<notin> set (xs' @ ys)" by auto
    from seq_insert_after_holds[OF h8q exn h8ex]
    have h9q: "seq_holds h9 q (xs' @ ex # ys)"
      and h9fr: "\<And>m. m \<notin> set (xs' @ ys) \<Longrightarrow> m \<noteq> q \<Longrightarrow> m \<noteq> ex \<Longrightarrow> h9 m = h8 m"
      by (simp_all add: h9_def)
    from xs nl nq ne have h9b': "h9 b = h8 b" and h9pw': "h9 pw = h8 pw"
      by (auto intro!: h9fr)
    from axy aq an have h9a': "h9 a = h8 a" by (auto intro!: h9fr)
    have h9b: "seq_holds h9 b [a]"
      by (rule seq_holds_frame[OF h8b]) (simp_all add: h9b' h9a')
    have "h8 pw = h7 pw" using h8fr[of pw] gpw ne an by simp
    then have h9pw: "seq_holds h9 pw []"
      using seq_holds_frame[OF h7pw, of h9] h9pw' by simp
    have h9ex: "type (h9 ex) = NODE_EXPONENT" "exp_base (h9 ex) = Some b"
      "exp_power (h9 ex) = Some pw"
      using h7ex
      by (simp_all add: h9_def h8_def g_def seq_insert_after_payload seq_remove_payload)
    have pa: "prev (h7 a) = last_ptr xs'"
      using seq_holds_last_prev[OF h7q'] .
    have "math2_insert_exponent expr =
            expr\<lparr> nodes := h9, next_free := (pw + 1) mod MAX_NODES,
                  cursor := \<lparr> sequence = exp_power (h9 ex), after = None \<rparr>,
                  shift_mode := False, alpha_mode := False \<rparr>"
      unfolding run
      using ca cs xs kind h7a pa gex h7ex
      by (simp add: h7_def[symmetric] Let_def g_def[symmetric] h8_def[symmetric] h9_def[symmetric])
    with fresh h9q h9b h9pw h9ex True xs show ?thesis
      by - (rule exI[of _ ex], rule exI[of _ b], rule exI[of _ pw], auto)
  next
    case False
    have h7a: "type (h7 a) = type (nodes expr a)" if "xs \<noteq> []" "a = last xs" for a
      using that old[of a] live[of a] by simp
    define h9 where "h9 = seq_insert_after h7 (Some q) (last_ptr xs) (Some ex)"
    from seq_insert_after_holds[OF h7q nl(1)] h7ex
    have h9q: "seq_holds h9 q (xs @ ex # ys)"
      and h9fr: "\<And>m. m \<notin> set (xs @ ys) \<Longrightarrow> m \<noteq> q \<Longrightarrow> m \<noteq> ex \<Longrightarrow> h9 m = h7 m"
      by (simp_all add: h9_def)
    from nl nq ne have h9b': "h9 b = h7 b" and h9pw': "h9 pw = h7 pw"
      by (auto intro!: h9fr)
    have h9b: "seq_holds h9 b []" using seq_holds_frame[OF h7b, of h9] h9b' by simp
    have h9pw: "seq_holds h9 pw []" using seq_holds_frame[OF h7pw, of h9] h9pw' by simp
    have h9ex: "type (h9 ex) = NODE_EXPONENT" "exp_base (h9 ex) = Some b"
      "exp_power (h9 ex) = Some pw"
      using h7ex by (simp_all add: h9_def seq_insert_after_payload)
    have "math2_insert_exponent expr =
            expr\<lparr> nodes := h9, next_free := (pw + 1) mod MAX_NODES,
                  cursor := \<lparr> sequence = exp_power (h9 ex), after = None \<rparr>,
                  shift_mode := False, alpha_mode := False \<rparr>"
      unfolding run
      using ca cs False h7a
      by (cases xs rule: rev_cases)
         (simp_all add: h7_def[symmetric] Let_def h9_def)
    with fresh h9q h9b h9pw h9ex False show ?thesis
      by - (rule exI[of _ ex], rule exI[of _ b], rule exI[of _ pw], auto)
  qed
qed

lemma typed_12_exponent_run: "math2_insert_exponent typed_12 = typed_12_exponent"
  by (simp add: typed_12_def typed_12_exponent_def math2_insert_exponent_def run_defs fun_eq_iff)

lemma typed_12_exponent_latex:
  "math2_to_latex MAX_NODES typed_12_exponent = Some (typed_12_exponent\<lparr> latex := ''1{2}^{}'' \<rparr>)"
  by (simp add: math2_to_latex_def typed_12_exponent_def latex_fuel_eval latex_steps_def
        zero_node_def MAX_NODES_def)

lemma typed_12_exponent_shape:
  "seq_children typed_12_exponent 0 = Some [1, 3]"
  "seq_children typed_12_exponent 4 = Some [2]"
  "seq_children typed_12_exponent 5 = Some []"
  by (simp_all add: seq_children_def typed_12_exponent_def chain_eval zero_node_def MAX_NODES_def)

lemma three_empty_slots:
  assumes "i < MAX_NODES" "j < MAX_NODES" "k < MAX_NODES" "i \<noteq> j" "i \<noteq> k" "j \<noteq> k"
    "type (nodes e i) = NODE_EMPTY" "type (nodes e j) = NODE_EMPTY" "type (nodes e k) = NODE_EMPTY"
  shows "3 \<le> empty_slots e"
proof -
  have "{i, j, k} \<subseteq> {n. n < MAX_NODES \<and> type (nodes e n) = NODE_EMPTY}"
    using assms by auto
  then have "card {i, j, k} \<le> card {n. n < MAX_NODES \<and> type (nodes e n) = NODE_EMPTY}"
    by (intro card_mono) auto
  with assms show ?thesis by (simp add: empty_slots_card)
qed

lemma typed_12_facts:
  "3 \<le> empty_slots typed_12"
  "sequence (cursor typed_12) = Some 0"
  "after (cursor typed_12) = last_ptr [1, 2]"
  "seq_holds (nodes typed_12) 0 ([1, 2] @ [])"
  "exponent_base_kind (type (nodes typed_12 (last [1, 2])))"
proof -
  show "3 \<le> empty_slots typed_12"
    by (rule three_empty_slots[of 3 4 5]) (simp_all add: typed_12_def run_defs)
  show "sequence (cursor typed_12) = Some 0" "after (cursor typed_12) = last_ptr [1, 2]"
    "seq_holds (nodes typed_12) 0 ([1, 2] @ [])"
    "exponent_base_kind (type (nodes typed_12 (last [1, 2])))"
    by (simp_all add: typed_12_def run_defs seq_holds_def exponent_base_kind_def)
qed

text \<open>
  Claim C3. When the pool has room for the exponent node and its two slots, and the
  cursor stands in a well-formed sequence \<open>q\<close> between the children \<open>xs\<close> and \<open>ys\<close>:
  \<open>math2_insert_exponent\<close> creates an exponent node with an empty power slot and leaves the
  cursor at the start of that slot; if the last node of \<open>xs\<close> exists and is of kind Text,
  Fraction, Paren, Exponent or Root, then that node alone is moved into the base slot
  and the exponent node takes its place in \<open>q\<close>; otherwise the base slot stays empty and
  the exponent node is inserted after \<open>xs\<close>. With "1", "2" before the cursor, "2" alone
  becomes the base, "1" stays before the exponent node, and the LaTeX string of the
  result is \<open>1{2}^{}\<close>.
\<close>

theorem math2_insert_exponent_collects_one:
  "(3 \<le> empty_slots expr \<and> sequence (cursor expr) = Some q \<and> after (cursor expr) = last_ptr xs
     \<and> seq_holds (nodes expr) q (xs @ ys) \<longrightarrow>
     (\<exists>ex b pw.
        type (nodes expr ex) = NODE_EMPTY \<and> type (nodes expr b) = NODE_EMPTY \<and>
        type (nodes expr pw) = NODE_EMPTY \<and>
        type (nodes (math2_insert_exponent expr) ex) = NODE_EXPONENT \<and>
        exp_base (nodes (math2_insert_exponent expr) ex) = Some b \<and>
        exp_power (nodes (math2_insert_exponent expr) ex) = Some pw \<and>
        cursor (math2_insert_exponent expr) = \<lparr> sequence = Some pw, after = None \<rparr> \<and>
        seq_holds (nodes (math2_insert_exponent expr)) pw [] \<and>
        (if xs \<noteq> [] \<and> exponent_base_kind (type (nodes expr (last xs)))
         then seq_holds (nodes (math2_insert_exponent expr)) b [last xs] \<and>
              seq_holds (nodes (math2_insert_exponent expr)) q (butlast xs @ ex # ys)
         else seq_holds (nodes (math2_insert_exponent expr)) b [] \<and>
              seq_holds (nodes (math2_insert_exponent expr)) q (xs @ ex # ys))))
   \<and> math2_insert_exponent typed_12 = typed_12_exponent
   \<and> seq_children typed_12 0 = Some [1, 2]
   \<and> seq_children typed_12_exponent 0 = Some [1, 3]
   \<and> type (nodes typed_12_exponent 3) = NODE_EXPONENT
   \<and> exp_base (nodes typed_12_exponent 3) = Some 4
   \<and> seq_children typed_12_exponent 4 = Some [2]
   \<and> exp_power (nodes typed_12_exponent 3) = Some 5
   \<and> cursor typed_12_exponent = \<lparr> sequence = Some 5, after = None \<rparr>
   \<and> math2_to_latex MAX_NODES typed_12_exponent =
       Some (typed_12_exponent\<lparr> latex := ''1{2}^{}'' \<rparr>)"
proof (intro conjI impI)
  assume "3 \<le> empty_slots expr \<and> sequence (cursor expr) = Some q
     \<and> after (cursor expr) = last_ptr xs \<and> seq_holds (nodes expr) q (xs @ ys)"
  then show "\<exists>ex b pw.
        type (nodes expr ex) = NODE_EMPTY \<and> type (nodes expr b) = NODE_EMPTY \<and>
        type (nodes expr pw) = NODE_EMPTY \<and>
        type (nodes (math2_insert_exponent expr) ex) = NODE_EXPONENT \<and>
        exp_base (nodes (math2_insert_exponent expr) ex) = Some b \<and>
        exp_power (nodes (math2_insert_exponent expr) ex) = Some pw \<and>
        cursor (math2_insert_exponent expr) = \<lparr> sequence = Some pw, after = None \<rparr> \<and>
        seq_holds (nodes (math2_insert_exponent expr)) pw [] \<and>
        (if xs \<noteq> [] \<and> exponent_base_kind (type (nodes expr (last xs)))
         then seq_holds (nodes (math2_insert_exponent expr)) b [last xs] \<and>
              seq_holds (nodes (math2_insert_exponent expr)) q (butlast xs @ ex # ys)
         else seq_holds (nodes (math2_insert_exponent expr)) b [] \<and>
              seq_holds (nodes (math2_insert_exponent expr)) q (xs @ ex # ys))"
    using insert_exponent_on_sequence[of expr q xs ys] by blast
next
  show "math2_insert_exponent typed_12 = typed_12_exponent"
    by (rule typed_12_exponent_run)
  show "seq_children typed_12 0 = Some [1, 2]"
    by (simp add: seq_children_def typed_12_def chain_eval run_defs)
  show "seq_children typed_12_exponent 0 = Some [1, 3]"
    "seq_children typed_12_exponent 4 = Some [2]"
    by (rule typed_12_exponent_shape)+
  show "type (nodes typed_12_exponent 3) = NODE_EXPONENT"
    "exp_base (nodes typed_12_exponent 3) = Some 4"
    "exp_power (nodes typed_12_exponent 3) = Some 5"
    "cursor typed_12_exponent = \<lparr> sequence = Some 5, after = None \<rparr>"
    by (simp_all add: typed_12_exponent_def zero_node_def)
  show "math2_to_latex MAX_NODES typed_12_exponent =
       Some (typed_12_exponent\<lparr> latex := ''1{2}^{}'' \<rparr>)"
    by (rule typed_12_exponent_latex)
qed

theorem math2_insert_exponent_collects_one_witness:
  "\<exists>ex b pw.
     exp_base (nodes (math2_insert_exponent typed_12) ex) = Some b \<and>
     exp_power (nodes (math2_insert_exponent typed_12) ex) = Some pw \<and>
     cursor (math2_insert_exponent typed_12) = \<lparr> sequence = Some pw, after = None \<rparr> \<and>
     seq_holds (nodes (math2_insert_exponent typed_12)) pw [] \<and>
     seq_holds (nodes (math2_insert_exponent typed_12)) b [2] \<and>
     seq_holds (nodes (math2_insert_exponent typed_12)) 0 [1, ex]"
proof -
  have "3 \<le> empty_slots typed_12 \<and> sequence (cursor typed_12) = Some 0
        \<and> after (cursor typed_12) = last_ptr [1, 2]
        \<and> seq_holds (nodes typed_12) 0 ([1, 2] @ [])"
    using typed_12_facts by blast
  with math2_insert_exponent_collects_one[of typed_12 0 "[1, 2]" "[]"]
  obtain ex b pw where
    "exp_base (nodes (math2_insert_exponent typed_12) ex) = Some b"
    "exp_power (nodes (math2_insert_exponent typed_12) ex) = Some pw"
    "cursor (math2_insert_exponent typed_12) = \<lparr> sequence = Some pw, after = None \<rparr>"
    "seq_holds (nodes (math2_insert_exponent typed_12)) pw []"
    "if [1, 2::nat] \<noteq> [] \<and> exponent_base_kind (type (nodes typed_12 (last [1, 2])))
     then seq_holds (nodes (math2_insert_exponent typed_12)) b [last [1, 2]] \<and>
          seq_holds (nodes (math2_insert_exponent typed_12)) 0 (butlast [1, 2] @ ex # [])
     else seq_holds (nodes (math2_insert_exponent typed_12)) b [] \<and>
          seq_holds (nodes (math2_insert_exponent typed_12)) 0 ([1, 2] @ ex # [])"
    by blast
  with typed_12_facts(5) show ?thesis
    by - (rule exI[of _ ex], rule exI[of _ b], rule exI[of _ pw], simp)
qed

subsection \<open>Drawing\<close>

lemma replay_parens_append:
  "replay_parens d (t1 @ t2) = Option.bind (replay_parens d t1) (\<lambda>d'. replay_parens d' t2)"
  by (induction d t1 rule: replay_parens.induct) (auto split: nat.splits)

lemma paren_color_depth:
  "0 \<le> d \<Longrightarrow> paren_color True d = PAREN_COLORS ! (nat d mod 5)"
  by (simp add: paren_color_def NUM_PAREN_COLORS_def signed_modulo_int_def sgn_if
        nat_mod_distrib)

lemma draws_well_refl: "draws_well ds ds"
  by (simp add: draws_well_def)

lemma draws_well_trans: "draws_well a b \<Longrightarrow> draws_well b c \<Longrightarrow> draws_well a c"
  by (auto simp: draws_well_def replay_parens_append)

lemma draws_well_paren:
  assumes d: "0 \<le> g_paren_depth ds"
    and inner: "draws_well (ds\<lparr> g_paren_depth := g_paren_depth ds + 1,
                    paren_log := paren_log ds @ [ParenDraw n (paren_color True (g_paren_depth ds))] \<rparr>) ds3"
  shows "draws_well ds (ds3\<lparr> g_paren_depth := g_paren_depth ds3 - 1,
                            paren_log := paren_log ds3 @ [ParenDone n] \<rparr>)"
proof -
  from inner obtain t where
    g: "g_paren_depth ds3 = g_paren_depth ds + 1"
    and l: "paren_log ds3 = (paren_log ds @ [ParenDraw n (paren_color True (g_paren_depth ds))]) @ t"
    and r: "replay_parens (nat (g_paren_depth ds + 1)) t = Some (nat (g_paren_depth ds + 1))"
    by (auto simp: draws_well_def)
  from d have s: "nat (g_paren_depth ds + 1) = Suc (nat (g_paren_depth ds))" by simp
  have "replay_parens (nat (g_paren_depth ds))
          ([ParenDraw n (paren_color True (g_paren_depth ds))] @ t @ [ParenDone n])
        = Some (nat (g_paren_depth ds))"
    using r d by (simp add: replay_parens_append paren_color_depth s)
  with g l show ?thesis
    by (simp add: draws_well_def)
qed

lemma draw_invariant:
  "math2_draw_node fuel cb h p ds = Some ds' \<Longrightarrow> cb \<Longrightarrow> 0 \<le> g_paren_depth ds \<Longrightarrow> draws_well ds ds'"
  "draw_slots fuel2 cb2 h2 sls ds2 = Some ds2' \<Longrightarrow> cb2 \<Longrightarrow> 0 \<le> g_paren_depth ds2 \<Longrightarrow> draws_well ds2 ds2'"
  "draw_sequence fuel3 cb3 h3 s ds3 = Some ds3' \<Longrightarrow> cb3 \<Longrightarrow> 0 \<le> g_paren_depth ds3 \<Longrightarrow> draws_well ds3 ds3'"
  "draw_children fuel4 cb4 h4 c ds4 = Some ds4' \<Longrightarrow> cb4 \<Longrightarrow> 0 \<le> g_paren_depth ds4 \<Longrightarrow> draws_well ds4 ds4'"
proof (induction fuel cb h p ds and fuel2 cb2 h2 sls ds2 and fuel3 cb3 h3 s ds3 and fuel4 cb4 h4 c ds4
       arbitrary: ds' and ds2' and ds3' and ds4'
       rule: math2_draw_node_draw_slots_draw_sequence_draw_children.induct)
  case (1 fuel cb h ds)
  then show ?case by (simp add: draws_well_refl)
next
  case (2 cb h n ds)
  then show ?case by simp
next
  case (3 k cb h n ds)
  show ?case
  proof (cases "type (h n) = NODE_SEQUENCE")
    case True
    with 3 show ?thesis by simp
  next
    case ns: False
    show ?thesis
    proof (cases "type (h n) = NODE_PAREN")
      case True
      let ?ds2 = "ds\<lparr> g_paren_depth := g_paren_depth ds + 1,
                    paren_log := paren_log ds @ [ParenDraw n (paren_color cb (g_paren_depth ds))] \<rparr>"
      from "3.prems" ns True obtain d3 where
        d3: "draw_slots k cb h (drawn_slots (h n)) ?ds2 = Some d3"
        and r: "ds' = d3\<lparr> g_paren_depth := g_paren_depth d3 - 1,
                          paren_log := paren_log d3 @ [ParenDone n] \<rparr>"
        by (auto simp: Let_def split: option.splits)
      have "draws_well ?ds2 d3"
        using "3.IH"(2)[OF ns True refl refl refl, of d3] d3 "3.prems" by simp
      with "3.prems" r show ?thesis
        using draws_well_paren[of ds n d3] by simp
    next
      case False
      with 3 ns show ?thesis by simp
    qed
  qed
next
  case (4 fuel cb h ds)
  then show ?case by (simp add: draws_well_refl)
next
  case (5 fuel cb h sl sls ds)
  show ?case
  proof (cases "seq_is_empty h sl")
    case True
    with 5 show ?thesis by (simp add: draws_well_refl)
  next
    case False
    from "5.prems" False obtain d1 where
      d1: "draw_sequence fuel cb h sl ds = Some d1"
      and r: "draw_slots fuel cb h sls d1 = Some ds2'"
      by (auto split: option.splits)
    from "5.IH"(1)[OF False d1] "5.prems" have w1: "draws_well ds d1" by simp
    then have "0 \<le> g_paren_depth d1" using "5.prems" by (simp add: draws_well_def)
    with "5.IH"(2)[of d1 ds2'] False d1 r "5.prems" have "draws_well d1 ds2'" by simp
    with w1 show ?thesis by (rule draws_well_trans)
  qed
next
  case (6 fuel cb h ds)
  then show ?case by (simp add: draws_well_refl)
next
  case (7 fuel cb h s ds)
  then show ?case by (auto simp: draws_well_refl split: if_splits)
next
  case (8 fuel cb h ds)
  then show ?case by (simp add: draws_well_refl)
next
  case (9 cb h c ds)
  then show ?case by simp
next
  case (10 k cb h c ds)
  from "10.prems" obtain d1 where
    d1: "math2_draw_node k cb h (Some c) ds = Some d1"
    and r: "draw_children k cb h (next (h c)) d1 = Some ds4'"
    by (auto split: option.splits)
  from "10.IH"(1)[OF d1] "10.prems" have w1: "draws_well ds d1" by simp
  then have "0 \<le> g_paren_depth d1" using "10.prems" by (simp add: draws_well_def)
  with "10.IH"(2)[OF d1 r] "10.prems" have "draws_well d1 ds4'" by simp
  with w1 show ?case by (rule draws_well_trans)
qed


lemma draw_fuel_eval:
  "math2_draw_node (numeral k) cb h (Some n) ds =
     (if type (h n) = NODE_SEQUENCE then draw_sequence (pred_numeral k) cb h (Some n) ds
      else if type (h n) = NODE_PAREN then
        (let c = paren_color cb (g_paren_depth ds);
             ds1 = ds\<lparr> g_paren_depth := g_paren_depth ds + 1 \<rparr>;
             ds2 = ds1\<lparr> paren_log := paren_log ds1 @ [ParenDraw n c] \<rparr>
         in case draw_slots (pred_numeral k) cb h (drawn_slots (h n)) ds2 of
              None \<Rightarrow> None
            | Some ds3 \<Rightarrow>
                Some (ds3\<lparr> g_paren_depth := g_paren_depth ds3 - 1,
                          paren_log := paren_log ds3 @ [ParenDone n] \<rparr>))
      else draw_slots (pred_numeral k) cb h (drawn_slots (h n)) ds)"
  "draw_children (numeral k) cb h (Some c) ds =
     (case math2_draw_node (pred_numeral k) cb h (Some c) ds of
        None \<Rightarrow> None
      | Some ds' \<Rightarrow> draw_children (pred_numeral k) cb h (next (h c)) ds')"
  by (simp_all add: numeral_eq_Suc)

lemma three_parens_draw:
  "math2_draw MAX_NODES True three_parens draw_start =
     Some \<lparr> g_paren_depth = 0,
            paren_log = [ParenDraw 1 (PAREN_COLORS ! 0), ParenDraw 3 (PAREN_COLORS ! 1),
                         ParenDraw 5 (PAREN_COLORS ! 2),
                         ParenDone 5, ParenDone 3, ParenDone 1] \<rparr>"
  by (simp add: math2_draw_def three_parens_def draw_start_def draw_fuel_eval drawn_slots_def
        paren_color_def NUM_PAREN_COLORS_def signed_modulo_int_def run_defs)

lemma three_parens_shape:
  "seq_children three_parens 0 = Some [1]"
  "type (nodes three_parens 1) = NODE_PAREN"
  "paren_content (nodes three_parens 1) = Some 2"
  "seq_children three_parens 2 = Some [3]"
  "type (nodes three_parens 3) = NODE_PAREN"
  "paren_content (nodes three_parens 3) = Some 4"
  "seq_children three_parens 4 = Some [5]"
  "type (nodes three_parens 5) = NODE_PAREN"
  "paren_content (nodes three_parens 5) = Some 6"
  "seq_children three_parens 6 = Some []"
  by (simp_all add: three_parens_def seq_children_def chain_eval run_defs)

text \<open>
  On a store that holds a tree, the drawing returns when the fuel is at least the
  number of nodes, and it logs exactly the events expected for that tree. The sibling
  loop and the slot list are handled first, for any list of subtrees.
\<close>

lemma drawn_slots_node_slots: "drawn_slots node = node_slots node"
  by (simp add: drawn_slots_def node_slots_def)

lemma logged_simps:
  "logged ds [] = ds"
  "logged (logged ds e1) e2 = logged ds (e1 @ e2)"
  "g_paren_depth (logged ds evs) = g_paren_depth ds"
  by (simp_all add: logged_def)

lemma draw_children_tree:
  assumes IH: "\<And>t c fuel ds. t \<in> set ts \<Longrightarrow> node_at h c t \<Longrightarrow> tree_size t \<le> fuel \<Longrightarrow>
                 g_paren_depth ds = int d \<Longrightarrow>
                 math2_draw_node fuel True h (Some c) ds = Some (logged ds (paren_events h d t))"
    and "children_at h p ts"
    and "Suc (sum_list (map tree_size ts)) \<le> fuel"
    and "g_paren_depth ds = int d"
  shows "draw_children fuel True h p ds = Some (logged ds (concat (map (paren_events h d) ts)))"
  using assms
proof (induction ts arbitrary: p fuel ds)
  case Nil
  then show ?case by (cases p) (simp_all add: logged_simps)
next
  case (Cons t ts)
  from Cons.prems(2) obtain c where p: "p = Some c" and c: "node_at h c t"
    and rest: "children_at h (next (h c)) ts"
    by (cases p) simp_all
  from Cons.prems(3) obtain k where k: "fuel = Suc k" by (cases fuel) simp_all
  have sz: "1 \<le> tree_size t" by (cases t) simp
  have n1: "math2_draw_node k True h (Some c) ds = Some (logged ds (paren_events h d t))"
    using Cons.prems(3) k by (intro Cons.prems(1) c Cons.prems(4)) simp_all
  have n2: "draw_children k True h (next (h c)) (logged ds (paren_events h d t)) =
              Some (logged (logged ds (paren_events h d t)) (concat (map (paren_events h d) ts)))"
  proof (rule Cons.IH[OF _ rest])
    show "Suc (sum_list (map tree_size ts)) \<le> k"
      using Cons.prems(3) k sz by simp
    show "g_paren_depth (logged ds (paren_events h d t)) = int d"
      using Cons.prems(4) by (simp add: logged_simps)
  qed (rule Cons.prems(1), simp_all)
  show ?case
    unfolding p k by (simp add: n1 n2 logged_simps)
qed

lemma draw_slots_tree:
  assumes IH: "\<And>t s fuel ds. t \<in> set ts \<Longrightarrow> seq_at h s t \<Longrightarrow> tree_size t \<le> fuel \<Longrightarrow>
                 g_paren_depth ds = int d \<Longrightarrow>
                 draw_sequence fuel True h (Some s) ds = Some (logged ds (paren_events h d t))"
    and "slots_at h sls ts"
    and "sum_list (map tree_size ts) \<le> fuel"
    and "g_paren_depth ds = int d"
  shows "draw_slots fuel True h sls ds = Some (logged ds (concat (map (paren_events h d) ts)))"
  using assms
proof (induction ts arbitrary: sls ds)
  case Nil
  then show ?case by (cases sls) (simp_all add: logged_simps)
next
  case (Cons t ts)
  from Cons.prems(2) obtain sl sls' where sls0: "sls = sl # sls'"
    by (cases sls) simp_all
  with Cons.prems(2) obtain s where sls: "sls = Some s # sls'" and s: "seq_at h s t"
    and rest: "slots_at h sls' ts"
    by (cases sl) simp_all
  have n1: "draw_sequence fuel True h (Some s) ds = Some (logged ds (paren_events h d t))"
    using Cons.prems(3) by (intro Cons.prems(1) s Cons.prems(4)) simp_all
  have e: "paren_events h d t = []" if emp: "seq_is_empty h (Some s)"
  proof -
    obtain m ts' where t: "t = Node m ts'" by (cases t)
    from s emp t have "children_at h None ts'" by (simp add: seq_is_empty_def)
    then have "ts' = []" by (cases ts') simp_all
    with s t show ?thesis by simp
  qed
  have n2: "draw_slots fuel True h sls' (logged ds (paren_events h d t)) =
              Some (logged (logged ds (paren_events h d t)) (concat (map (paren_events h d) ts)))"
  proof (rule Cons.IH[OF _ rest])
    show "sum_list (map tree_size ts) \<le> fuel"
      using Cons.prems(3) by simp
    show "g_paren_depth (logged ds (paren_events h d t)) = int d"
      using Cons.prems(4) by (simp add: logged_simps)
  qed (rule Cons.prems(1), simp_all)
  show ?case
  proof (cases "seq_is_empty h (Some s)")
    case True
    with e have "paren_events h d t = []" by simp
    with n2 True show ?thesis unfolding sls by (simp add: logged_simps)
  next
    case False
    then show ?thesis
      unfolding sls by (simp add: n1 n2 logged_simps del: draw_sequence.simps)
  qed
qed

lemma draw_tree:
  "(node_at h n t \<longrightarrow> tree_size t \<le> fuel \<longrightarrow> g_paren_depth ds = int d \<longrightarrow>
      math2_draw_node fuel True h (Some n) ds = Some (logged ds (paren_events h d t)))
   \<and> (seq_at h n t \<longrightarrow> tree_size t \<le> fuel \<longrightarrow> g_paren_depth ds = int d \<longrightarrow>
      draw_sequence fuel True h (Some n) ds = Some (logged ds (paren_events h d t)))"
proof (induction t arbitrary: n fuel ds d)
  case (Node m ts)
  show ?case
  proof (intro conjI impI)
    assume a: "seq_at h n (Node m ts)" and f: "tree_size (Node m ts) \<le> fuel"
      and g: "g_paren_depth ds = int d"
    from a have m: "m = n" and ty: "type (h n) = NODE_SEQUENCE"
      and ch: "children_at h (seq_first (h n)) ts" by simp_all
    have "draw_children fuel True h (seq_first (h n)) ds =
            Some (logged ds (concat (map (paren_events h d) ts)))"
      using Node.IH f by (intro draw_children_tree[OF _ ch _ g]) simp_all
    then show "draw_sequence fuel True h (Some n) ds =
                 Some (logged ds (paren_events h d (Node m ts)))"
      using ty m by simp
  next
    assume a: "node_at h n (Node m ts)" and f: "tree_size (Node m ts) \<le> fuel"
      and g: "g_paren_depth ds = int d"
    from a have m: "m = n" and ty: "type (h n) \<noteq> NODE_SEQUENCE"
      and sl: "slots_at h (drawn_slots (h n)) ts"
      by (simp_all add: drawn_slots_node_slots)
    from f obtain k where k: "fuel = Suc k" and kk: "sum_list (map tree_size ts) \<le> k"
      by (cases fuel) simp_all
    show "math2_draw_node fuel True h (Some n) ds =
            Some (logged ds (paren_events h d (Node m ts)))"
    proof (cases "type (h n) = NODE_PAREN")
      case False
      have "draw_slots k True h (drawn_slots (h n)) ds =
              Some (logged ds (concat (map (paren_events h d) ts)))"
        using Node.IH by (intro draw_slots_tree[OF _ sl kk g]) simp_all
      then show ?thesis using ty False m k by simp
    next
      case True
      let ?ds2 = "ds\<lparr> g_paren_depth := g_paren_depth ds + 1,
                      paren_log := paren_log ds @ [ParenDraw n (PAREN_COLORS ! (d mod 5))] \<rparr>"
      have g2: "g_paren_depth ?ds2 = int (Suc d)" using g by simp
      have "draw_slots k True h (drawn_slots (h n)) ?ds2 =
              Some (logged ?ds2 (concat (map (paren_events h (Suc d)) ts)))"
        using Node.IH by (intro draw_slots_tree[OF _ sl kk g2]) simp_all
      moreover have "paren_color True (g_paren_depth ds) = PAREN_COLORS ! (d mod 5)"
        using g by (simp add: paren_color_depth)
      ultimately show ?thesis
        using ty True m k g by (simp add: logged_def Let_def)
    qed
  qed
qed

lemma drawn_parens_append: "drawn_parens (a @ b) = drawn_parens a @ drawn_parens b"
  by (induction a rule: drawn_parens.induct) simp_all

lemma drawn_parens_concat:
  "drawn_parens (concat xs) = concat (map drawn_parens xs)"
  by (induction xs) (simp_all add: drawn_parens_append)

lemma paren_events_depths:
  "drawn_parens (paren_events h d t) =
     map (\<lambda>(n, k). (n, PAREN_COLORS ! (k mod 5))) (paren_depths h d t)"
proof (induction t arbitrary: d)
  case (Node n ts)
  have "concat (map (\<lambda>t. drawn_parens (paren_events h e t)) ts) =
        concat (map (\<lambda>t. map (\<lambda>(n, k). (n, PAREN_COLORS ! (k mod 5))) (paren_depths h e t)) ts)"
    for e
    using Node.IH by (induction ts) simp_all
  then show ?case
    by (simp add: drawn_parens_append drawn_parens_concat map_concat comp_def)
qed

lemma paren_depths_nodes:
  "map fst (paren_depths h d t) = filter (\<lambda>n. type (h n) = NODE_PAREN) (tree_nodes t)"
proof (induction t arbitrary: d)
  case (Node n ts)
  have "concat (map (\<lambda>t. map fst (paren_depths h e t)) ts) =
        concat (map (\<lambda>t. filter (\<lambda>n. type (h n) = NODE_PAREN) (tree_nodes t)) ts)" for e
    using Node.IH by (induction ts) simp_all
  then show ?case
    by (simp add: map_concat filter_concat comp_def)
qed

lemma three_parens_seq_at: "seq_at (nodes three_parens) 0 three_parens_tree"
  by (simp add: three_parens_tree_def three_parens_def node_slots_def run_defs)

lemma three_parens_depths:
  "paren_depths (nodes three_parens) 0 three_parens_tree = [(1, 0), (3, 1), (5, 2)]"
  by (simp add: three_parens_tree_def three_parens_def run_defs)

text \<open>
  Claim C9. With bracket colouring enabled, \<open>math2_draw\<close> on an expression whose root
  holds a tree returns (the fuel being at least the number of nodes), with
  \<open>g_paren_depth\<close> back at the non-negative value it started from. The Paren nodes it
  drew are exactly the Paren nodes of the tree, in the order of a left-to-right walk,
  each in the palette colour whose index is its nesting depth modulo 5; the events it
  logged raise the depth on entering a Paren node and lower it on leaving. On any store,
  a \<open>math2_draw\<close> that returns leaves the counter at its starting value with a log
  that replays; from the program's initial counter \<open>0\<close> it ends at \<open>0\<close>. For three
  nested Paren nodes (nodes 1, 3, 5 from the outside in) the colours are the palette
  entries 0, 1, 2 in that order, and the draw returns with the counter at \<open>0\<close>.
\<close>

theorem math2_draw_paren_colors:
  "(seq_at (nodes expr) r t \<and> root expr = Some r \<and> tree_size t \<le> fuel
      \<and> 0 \<le> g_paren_depth ds0 \<longrightarrow>
      (\<exists>ds' evs. math2_draw fuel True expr ds0 = Some ds'
         \<and> g_paren_depth ds' = g_paren_depth ds0
         \<and> paren_log ds' = paren_log ds0 @ evs
         \<and> evs = paren_events (nodes expr) (nat (g_paren_depth ds0)) t
         \<and> drawn_parens evs =
             map (\<lambda>(n, k). (n, PAREN_COLORS ! (k mod 5)))
               (paren_depths (nodes expr) (nat (g_paren_depth ds0)) t)
         \<and> map fst (paren_depths (nodes expr) (nat (g_paren_depth ds0)) t) =
             filter (\<lambda>n. type (nodes expr n) = NODE_PAREN) (tree_nodes t)
         \<and> replay_parens (nat (g_paren_depth ds0)) evs = Some (nat (g_paren_depth ds0))))
   \<and> (math2_draw fuel True expr ds0 = Some ds \<and> 0 \<le> g_paren_depth ds0 \<longrightarrow>
      g_paren_depth ds = g_paren_depth ds0
      \<and> (\<exists>t. paren_log ds = paren_log ds0 @ t
             \<and> replay_parens (nat (g_paren_depth ds0)) t = Some (nat (g_paren_depth ds0))))
   \<and> (math2_draw fuel True expr draw_start = Some ds \<longrightarrow>
        g_paren_depth ds = 0 \<and> replay_parens 0 (paren_log ds) = Some 0)
   \<and> seq_children three_parens 0 = Some [1] \<and> type (nodes three_parens 1) = NODE_PAREN
   \<and> paren_content (nodes three_parens 1) = Some 2
   \<and> seq_children three_parens 2 = Some [3] \<and> type (nodes three_parens 3) = NODE_PAREN
   \<and> paren_content (nodes three_parens 3) = Some 4
   \<and> seq_children three_parens 4 = Some [5] \<and> type (nodes three_parens 5) = NODE_PAREN
   \<and> math2_draw MAX_NODES True three_parens draw_start =
       Some \<lparr> g_paren_depth = 0,
              paren_log = [ParenDraw 1 (PAREN_COLORS ! 0), ParenDraw 3 (PAREN_COLORS ! 1),
                           ParenDraw 5 (PAREN_COLORS ! 2),
                           ParenDone 5, ParenDone 3, ParenDone 1] \<rparr>"
proof (intro conjI impI)
  assume a: "seq_at (nodes expr) r t \<and> root expr = Some r \<and> tree_size t \<le> fuel
      \<and> 0 \<le> g_paren_depth ds0"
  let ?d = "nat (g_paren_depth ds0)"
  let ?evs = "paren_events (nodes expr) ?d t"
  from a have g: "g_paren_depth ds0 = int ?d" by simp
  from a draw_tree[of "nodes expr" r t fuel ds0 ?d] g
  have run: "math2_draw fuel True expr ds0 = Some (logged ds0 ?evs)"
    by (simp add: math2_draw_def)
  from draw_invariant(3)[of fuel True "nodes expr" "root expr" ds0 "logged ds0 ?evs"] run a
  have "draws_well ds0 (logged ds0 ?evs)"
    by (simp add: math2_draw_def)
  then have rp: "replay_parens ?d ?evs = Some ?d"
    by (simp add: draws_well_def logged_def)
  from run rp
  show "\<exists>ds' evs. math2_draw fuel True expr ds0 = Some ds'
         \<and> g_paren_depth ds' = g_paren_depth ds0
         \<and> paren_log ds' = paren_log ds0 @ evs
         \<and> evs = paren_events (nodes expr) (nat (g_paren_depth ds0)) t
         \<and> drawn_parens evs =
             map (\<lambda>(n, k). (n, PAREN_COLORS ! (k mod 5)))
               (paren_depths (nodes expr) (nat (g_paren_depth ds0)) t)
         \<and> map fst (paren_depths (nodes expr) (nat (g_paren_depth ds0)) t) =
             filter (\<lambda>n. type (nodes expr n) = NODE_PAREN) (tree_nodes t)
         \<and> replay_parens (nat (g_paren_depth ds0)) evs = Some (nat (g_paren_depth ds0))"
    by (simp add: logged_def paren_events_depths paren_depths_nodes)
next
  assume a: "math2_draw fuel True expr ds0 = Some ds \<and> 0 \<le> g_paren_depth ds0"
  then have "draws_well ds0 ds"
    using draw_invariant(3)[of fuel True "nodes expr" "root expr" ds0 ds]
    by (simp add: math2_draw_def)
  then show "g_paren_depth ds = g_paren_depth ds0"
    and "\<exists>t. paren_log ds = paren_log ds0 @ t
             \<and> replay_parens (nat (g_paren_depth ds0)) t = Some (nat (g_paren_depth ds0))"
    by (simp_all add: draws_well_def)
next
  assume a: "math2_draw fuel True expr draw_start = Some ds"
  then have "draws_well draw_start ds"
    using draw_invariant(3)[of fuel True "nodes expr" "root expr" draw_start ds]
    by (simp add: math2_draw_def draw_start_def)
  then show "g_paren_depth ds = 0" "replay_parens 0 (paren_log ds) = Some 0"
    by (auto simp: draws_well_def draw_start_def)
next
  show "math2_draw MAX_NODES True three_parens draw_start =
       Some \<lparr> g_paren_depth = 0,
              paren_log = [ParenDraw 1 (PAREN_COLORS ! 0), ParenDraw 3 (PAREN_COLORS ! 1),
                           ParenDraw 5 (PAREN_COLORS ! 2),
                           ParenDone 5, ParenDone 3, ParenDone 1] \<rparr>"
    by (rule three_parens_draw)
qed (rule three_parens_shape)+

theorem math2_draw_paren_colors_witness:
  "seq_at (nodes three_parens) 0 three_parens_tree
   \<and> root three_parens = Some 0
   \<and> tree_size three_parens_tree \<le> MAX_NODES
   \<and> 0 \<le> g_paren_depth draw_start
   \<and> (\<exists>ds'. math2_draw MAX_NODES True three_parens draw_start = Some ds'
         \<and> g_paren_depth ds' = 0
         \<and> drawn_parens (paren_log ds') =
             [(1, PAREN_COLORS ! 0), (3, PAREN_COLORS ! 1), (5, PAREN_COLORS ! 2)]
         \<and> filter (\<lambda>n. type (nodes three_parens n) = NODE_PAREN)
              (tree_nodes three_parens_tree) = [1, 3, 5]
         \<and> replay_parens 0 (paren_log ds') = Some 0)"
proof -
  have h: "seq_at (nodes three_parens) 0 three_parens_tree" "root three_parens = Some 0"
    "tree_size three_parens_tree \<le> MAX_NODES" "0 \<le> g_paren_depth draw_start"
    "g_paren_depth draw_start = 0" "paren_log draw_start = []"
  proof -
    show "seq_at (nodes three_parens) 0 three_parens_tree" by (rule three_parens_seq_at)
    show "root three_parens = Some 0" by (simp add: three_parens_def run_defs)
    show "tree_size three_parens_tree \<le> MAX_NODES"
      by (simp add: three_parens_tree_def MAX_NODES_def)
  qed (simp_all add: draw_start_def)
  have hyp: "seq_at (nodes three_parens) 0 three_parens_tree \<and> root three_parens = Some 0
      \<and> tree_size three_parens_tree \<le> MAX_NODES \<and> 0 \<le> g_paren_depth draw_start"
    using h by blast
  from math2_draw_paren_colors[where expr = three_parens and r = 0 and t = three_parens_tree
      and fuel = MAX_NODES and ds0 = draw_start, THEN conjunct1, rule_format, OF hyp]
  obtain ds' evs where r:
    "math2_draw MAX_NODES True three_parens draw_start = Some ds'"
    "g_paren_depth ds' = g_paren_depth draw_start"
    "paren_log ds' = paren_log draw_start @ evs"
    "drawn_parens evs = map (\<lambda>(n, k). (n, PAREN_COLORS ! (k mod 5)))
       (paren_depths (nodes three_parens) (nat (g_paren_depth draw_start)) three_parens_tree)"
    "map fst (paren_depths (nodes three_parens) (nat (g_paren_depth draw_start))
                three_parens_tree) =
       filter (\<lambda>n. type (nodes three_parens n) = NODE_PAREN) (tree_nodes three_parens_tree)"
    "replay_parens (nat (g_paren_depth draw_start)) evs = Some (nat (g_paren_depth draw_start))"
    by blast
  have "g_paren_depth ds' = 0" using r(2) h(5) by simp
  moreover have "paren_log ds' = evs" using r(3) h(6) by simp
  moreover have "drawn_parens evs = [(1, PAREN_COLORS ! 0), (3, PAREN_COLORS ! 1), (5, PAREN_COLORS ! 2)]"
    using r(4) by (simp only: h(5) nat_0 three_parens_depths) simp
  moreover have "filter (\<lambda>n. type (nodes three_parens n) = NODE_PAREN)
                   (tree_nodes three_parens_tree) = [1, 3, 5]"
    using r(5) by (simp only: h(5) nat_0 three_parens_depths) simp
  moreover have "replay_parens 0 evs = Some 0" using r(6) by (simp only: h(5) nat_0)
  ultimately show ?thesis using r(1) hyp by simp
qed

subsection \<open>Insertion on an exhausted pool\<close>

text \<open>
  Every insertion allocates its container node first and its slot sequences next, and
  links nothing into the tree before all of them are there. Each allocation only writes
  a slot that was Empty, so the live nodes survive whatever the outcome.
\<close>

lemma live_part_kept_refl: "live_part_kept e e"
  by (simp add: live_part_kept_def)

lemma live_part_kept_trans:
  "live_part_kept a b \<Longrightarrow> live_part_kept b c \<Longrightarrow> live_part_kept a c"
  by (auto simp: live_part_kept_def)

lemma live_part_kept_alloc:
  assumes "math2_alloc_node e t = (r, e')"
  shows "live_part_kept e e'"
proof (cases r)
  case None
  with assms show ?thesis by (simp add: alloc_none live_part_kept_def)
next
  case (Some idx)
  from alloc_some(2,4)[OF assms[unfolded Some]] show ?thesis
    by (auto simp: live_part_kept_def)
qed

lemma new_sequence_some:
  assumes "math2_new_sequence e = (Some s, e')"
  shows "type (nodes e s) = NODE_EMPTY"
    and "e' = e\<lparr> nodes := (nodes e)(s := zero_node\<lparr> type := NODE_SEQUENCE \<rparr>),
                  next_free := (s + 1) mod MAX_NODES \<rparr>"
    and "empty_slots e = Suc (empty_slots e')"
  using new_sequence_outcome[of e] assms by auto

lemma new_sequence_none:
  "math2_new_sequence e = (None, e') \<Longrightarrow> e' = e \<and> empty_slots e = 0"
  using new_sequence_outcome[of e] by auto

lemma live_part_kept_new_sequence:
  assumes "math2_new_sequence e = (r, e')"
  shows "live_part_kept e e'"
proof (cases r)
  case None
  with assms new_sequence_none[of e e'] show ?thesis by (simp add: live_part_kept_def)
next
  case (Some s)
  from new_sequence_some(1,2)[OF assms[unfolded Some]] show ?thesis
    by (auto simp: live_part_kept_def)
qed

lemma alloc_fresh:
  "math2_alloc_node e t = (Some n, e') \<Longrightarrow> type (nodes e n) = NODE_EMPTY"
  by (rule alloc_some(2))

lemma live_part_kept_upd:
  "live_part_kept e0 e \<Longrightarrow> type (nodes e0 n) = NODE_EMPTY \<Longrightarrow>
   live_part_kept e0 (e\<lparr> nodes := upd (nodes e) n f \<rparr>)"
  by (auto simp: live_part_kept_def upd_def)

lemma empty_slots_upd:
  "(\<And>x. type (f x) = type x) \<Longrightarrow> empty_slots (e\<lparr> nodes := upd (nodes e) n f \<rparr>) = empty_slots e"
  by (rule empty_slots_types) (simp add: upd_def)


lemma math2_insert_text_noop:
  assumes "empty_slots expr < 1"
  shows "live_part_kept expr (math2_insert_text expr subtype txt)"
proof -
  from assms have "empty_slots expr = 0" by simp
  with alloc_outcome[of NODE_TEXT expr]
  have "math2_alloc_node expr NODE_TEXT = (None, expr)" by auto
  then show ?thesis by (simp add: math2_insert_text_def live_part_kept_refl)
qed


lemma math2_insert_fraction_noop:
  assumes "empty_slots expr < 3"
  shows "\<exists>e'. math2_insert_fraction expr = Some e' \<and> live_part_kept expr e'"
proof -
  obtain r1 e1 where a1: "math2_alloc_node expr NODE_FRACTION = (r1, e1)" by fastforce
  show ?thesis
  proof (cases r1)
    case None
    with a1 have "math2_insert_fraction expr = Some expr" by (simp add: math2_insert_fraction_def)
    then show ?thesis by (simp add: live_part_kept_refl)
  next
    case (Some n)
    note a1 = a1[unfolded Some]
    have fr: "type (nodes expr n) = NODE_EMPTY" by (rule alloc_fresh[OF a1])
    have c1: "empty_slots expr = Suc (empty_slots e1)" by (rule alloc_count[OF a1]) simp
    obtain s1 e2 where a2: "math2_new_sequence e1 = (s1, e2)" by fastforce
    let ?e3 = "e2\<lparr> nodes := upd (nodes e2) n (\<lambda>x. x\<lparr> frac_numer := s1 \<rparr>) \<rparr>"
    obtain s2 e4 where a3: "math2_new_sequence ?e3 = (s2, e4)" by fastforce
    let ?e5 = "e4\<lparr> nodes := upd (nodes e4) n (\<lambda>x. x\<lparr> frac_denom := s2 \<rparr>) \<rparr>"
    have k2: "live_part_kept expr e2"
      using live_part_kept_alloc[OF a1] live_part_kept_new_sequence[OF a2]
      by (rule live_part_kept_trans)
    have k3: "live_part_kept expr ?e3" by (rule live_part_kept_upd[OF k2 fr])
    have k4: "live_part_kept expr e4"
      using k3 live_part_kept_new_sequence[OF a3] by (rule live_part_kept_trans)
    have k5: "live_part_kept expr ?e5" by (rule live_part_kept_upd[OF k4 fr])
    have c3: "empty_slots ?e3 = empty_slots e2" by (rule empty_slots_upd) simp
    have fail: "s1 = None \<or> s2 = None"
    proof (rule ccontr)
      assume "\<not> (s1 = None \<or> s2 = None)"
      then obtain b1 b2 where s: "s1 = Some b1" "s2 = Some b2" by auto
      from new_sequence_some(3)[OF a2[unfolded s]] new_sequence_some(3)[OF a3[unfolded s]] c1 c3 assms s
      show False by simp
    qed
    have "math2_insert_fraction expr = Some ?e5"
      using fail a2 a3 by (cases s1; cases s2) (simp_all add: math2_insert_fraction_def a1 Let_def)
    with k5 show ?thesis by simp
  qed
qed

lemma math2_insert_exponent_noop:
  assumes "empty_slots expr < 3"
  shows "live_part_kept expr (math2_insert_exponent expr)"
proof -
  obtain r1 e1 where a1: "math2_alloc_node expr NODE_EXPONENT = (r1, e1)" by fastforce
  show ?thesis
  proof (cases r1)
    case None
    with a1 have "math2_insert_exponent expr = expr" by (simp add: math2_insert_exponent_def)
    then show ?thesis by (simp add: live_part_kept_refl)
  next
    case (Some n)
    note a1 = a1[unfolded Some]
    have fr: "type (nodes expr n) = NODE_EMPTY" by (rule alloc_fresh[OF a1])
    have c1: "empty_slots expr = Suc (empty_slots e1)" by (rule alloc_count[OF a1]) simp
    obtain s1 e2 where a2: "math2_new_sequence e1 = (s1, e2)" by fastforce
    let ?e3 = "e2\<lparr> nodes := upd (nodes e2) n (\<lambda>x. x\<lparr> exp_base := s1 \<rparr>) \<rparr>"
    obtain s2 e4 where a3: "math2_new_sequence ?e3 = (s2, e4)" by fastforce
    let ?e5 = "e4\<lparr> nodes := upd (nodes e4) n (\<lambda>x. x\<lparr> exp_power := s2 \<rparr>) \<rparr>"
    have k2: "live_part_kept expr e2"
      using live_part_kept_alloc[OF a1] live_part_kept_new_sequence[OF a2]
      by (rule live_part_kept_trans)
    have k3: "live_part_kept expr ?e3" by (rule live_part_kept_upd[OF k2 fr])
    have k4: "live_part_kept expr e4"
      using k3 live_part_kept_new_sequence[OF a3] by (rule live_part_kept_trans)
    have k5: "live_part_kept expr ?e5" by (rule live_part_kept_upd[OF k4 fr])
    have c3: "empty_slots ?e3 = empty_slots e2" by (rule empty_slots_upd) simp
    have fail: "s1 = None \<or> s2 = None"
    proof (rule ccontr)
      assume "\<not> (s1 = None \<or> s2 = None)"
      then obtain b1 b2 where s: "s1 = Some b1" "s2 = Some b2" by auto
      from new_sequence_some(3)[OF a2[unfolded s]] new_sequence_some(3)[OF a3[unfolded s]] c1 c3 assms s
      show False by simp
    qed
    have "math2_insert_exponent expr = ?e5"
      using fail a2 a3 by (cases s1; cases s2) (simp_all add: math2_insert_exponent_def a1 Let_def)
    with k5 show ?thesis by simp
  qed
qed

lemma math2_insert_subscript_noop:
  assumes "empty_slots expr < 3"
  shows "live_part_kept expr (math2_insert_subscript expr)"
proof -
  obtain r1 e1 where a1: "math2_alloc_node expr NODE_SUBSCRIPT = (r1, e1)" by fastforce
  show ?thesis
  proof (cases r1)
    case None
    with a1 have "math2_insert_subscript expr = expr" by (simp add: math2_insert_subscript_def)
    then show ?thesis by (simp add: live_part_kept_refl)
  next
    case (Some n)
    note a1 = a1[unfolded Some]
    have fr: "type (nodes expr n) = NODE_EMPTY" by (rule alloc_fresh[OF a1])
    have c1: "empty_slots expr = Suc (empty_slots e1)" by (rule alloc_count[OF a1]) simp
    obtain s1 e2 where a2: "math2_new_sequence e1 = (s1, e2)" by fastforce
    let ?e3 = "e2\<lparr> nodes := upd (nodes e2) n (\<lambda>x. x\<lparr> subscript_base := s1 \<rparr>) \<rparr>"
    obtain s2 e4 where a3: "math2_new_sequence ?e3 = (s2, e4)" by fastforce
    let ?e5 = "e4\<lparr> nodes := upd (nodes e4) n (\<lambda>x. x\<lparr> subscript_sub := s2 \<rparr>) \<rparr>"
    have k2: "live_part_kept expr e2"
      using live_part_kept_alloc[OF a1] live_part_kept_new_sequence[OF a2]
      by (rule live_part_kept_trans)
    have k3: "live_part_kept expr ?e3" by (rule live_part_kept_upd[OF k2 fr])
    have k4: "live_part_kept expr e4"
      using k3 live_part_kept_new_sequence[OF a3] by (rule live_part_kept_trans)
    have k5: "live_part_kept expr ?e5" by (rule live_part_kept_upd[OF k4 fr])
    have c3: "empty_slots ?e3 = empty_slots e2" by (rule empty_slots_upd) simp
    have fail: "s1 = None \<or> s2 = None"
    proof (rule ccontr)
      assume "\<not> (s1 = None \<or> s2 = None)"
      then obtain b1 b2 where s: "s1 = Some b1" "s2 = Some b2" by auto
      from new_sequence_some(3)[OF a2[unfolded s]] new_sequence_some(3)[OF a3[unfolded s]] c1 c3 assms s
      show False by simp
    qed
    have "math2_insert_subscript expr = ?e5"
      using fail a2 a3 by (cases s1; cases s2) (simp_all add: math2_insert_subscript_def a1 Let_def)
    with k5 show ?thesis by simp
  qed
qed

lemma math2_insert_xthroot_noop:
  assumes "empty_slots expr < 3"
  shows "live_part_kept expr (math2_insert_xthroot expr)"
proof -
  obtain r1 e1 where a1: "math2_alloc_node expr NODE_NTHROOT = (r1, e1)" by fastforce
  show ?thesis
  proof (cases r1)
    case None
    with a1 have "math2_insert_xthroot expr = expr" by (simp add: math2_insert_xthroot_def)
    then show ?thesis by (simp add: live_part_kept_refl)
  next
    case (Some n)
    note a1 = a1[unfolded Some]
    have fr: "type (nodes expr n) = NODE_EMPTY" by (rule alloc_fresh[OF a1])
    have c1: "empty_slots expr = Suc (empty_slots e1)" by (rule alloc_count[OF a1]) simp
    obtain s1 e2 where a2: "math2_new_sequence e1 = (s1, e2)" by fastforce
    let ?e3 = "e2\<lparr> nodes := upd (nodes e2) n (\<lambda>x. x\<lparr> nthroot_index := s1 \<rparr>) \<rparr>"
    obtain s2 e4 where a3: "math2_new_sequence ?e3 = (s2, e4)" by fastforce
    let ?e5 = "e4\<lparr> nodes := upd (nodes e4) n (\<lambda>x. x\<lparr> nthroot_content := s2 \<rparr>) \<rparr>"
    have k2: "live_part_kept expr e2"
      using live_part_kept_alloc[OF a1] live_part_kept_new_sequence[OF a2]
      by (rule live_part_kept_trans)
    have k3: "live_part_kept expr ?e3" by (rule live_part_kept_upd[OF k2 fr])
    have k4: "live_part_kept expr e4"
      using k3 live_part_kept_new_sequence[OF a3] by (rule live_part_kept_trans)
    have k5: "live_part_kept expr ?e5" by (rule live_part_kept_upd[OF k4 fr])
    have c3: "empty_slots ?e3 = empty_slots e2" by (rule empty_slots_upd) simp
    have fail: "s1 = None \<or> s2 = None"
    proof (rule ccontr)
      assume "\<not> (s1 = None \<or> s2 = None)"
      then obtain b1 b2 where s: "s1 = Some b1" "s2 = Some b2" by auto
      from new_sequence_some(3)[OF a2[unfolded s]] new_sequence_some(3)[OF a3[unfolded s]] c1 c3 assms s
      show False by simp
    qed
    have "math2_insert_xthroot expr = ?e5"
      using fail a2 a3 by (cases s1; cases s2) (simp_all add: math2_insert_xthroot_def a1 Let_def)
    with k5 show ?thesis by simp
  qed
qed

lemma math2_insert_nthroot_noop:
  assumes "empty_slots expr < 2"
  shows "live_part_kept expr (math2_insert_nthroot expr k)"
proof -
  obtain r1 e1 where a1: "math2_alloc_node expr NODE_ROOT = (r1, e1)" by fastforce
  show ?thesis
  proof (cases r1)
    case None
    with a1 have "math2_insert_nthroot expr k = expr" by (simp add: math2_insert_nthroot_def)
    then show ?thesis by (simp add: live_part_kept_refl)
  next
    case (Some n)
    note a1 = a1[unfolded Some]
    have fr: "type (nodes expr n) = NODE_EMPTY" by (rule alloc_fresh[OF a1])
    have c1: "empty_slots expr = Suc (empty_slots e1)" by (rule alloc_count[OF a1]) simp
    let ?e1' = "(e1\<lparr> nodes := upd (nodes e1) n (\<lambda>x. x\<lparr> root_index := k \<rparr>) \<rparr>)"
    have k1': "live_part_kept expr ?e1'"
      by (rule live_part_kept_upd[OF live_part_kept_alloc[OF a1] fr])
    have c1': "empty_slots ?e1' = empty_slots e1" by (rule empty_slots_upd) simp
    obtain s1 e2 where a2: "math2_new_sequence ?e1' = (s1, e2)" by fastforce
    let ?e3 = "e2\<lparr> nodes := upd (nodes e2) n (\<lambda>x. x\<lparr> root_content := s1 \<rparr>) \<rparr>"
    have k2: "live_part_kept expr e2"
      using k1' live_part_kept_new_sequence[OF a2]
      by (rule live_part_kept_trans)
    have k3: "live_part_kept expr ?e3" by (rule live_part_kept_upd[OF k2 fr])
    have fail: "s1 = None"
    proof (rule ccontr)
      assume "s1 \<noteq> None"
      then obtain b1 where s: "s1 = Some b1" by auto
      from new_sequence_some(3)[OF a2[unfolded s]] c1 c1' assms
      show False by simp
    qed
    have "math2_insert_nthroot expr k = ?e3"
      using fail by (simp add: math2_insert_nthroot_def a1 a2 Let_def)
    with k3 show ?thesis by simp
  qed
qed

lemma math2_insert_function_noop:
  assumes "empty_slots expr < 2"
  shows "live_part_kept expr (math2_insert_function expr name)"
proof -
  obtain r1 e1 where a1: "math2_alloc_node expr NODE_FUNCTION = (r1, e1)" by fastforce
  show ?thesis
  proof (cases r1)
    case None
    with a1 have "math2_insert_function expr name = expr" by (simp add: math2_insert_function_def)
    then show ?thesis by (simp add: live_part_kept_refl)
  next
    case (Some n)
    note a1 = a1[unfolded Some]
    have fr: "type (nodes expr n) = NODE_EMPTY" by (rule alloc_fresh[OF a1])
    have c1: "empty_slots expr = Suc (empty_slots e1)" by (rule alloc_count[OF a1]) simp
    let ?e1' = "(e1\<lparr> nodes := upd (nodes e1) n (\<lambda>x. x\<lparr> func_name := take 7 name \<rparr>) \<rparr>)"
    have k1': "live_part_kept expr ?e1'"
      by (rule live_part_kept_upd[OF live_part_kept_alloc[OF a1] fr])
    have c1': "empty_slots ?e1' = empty_slots e1" by (rule empty_slots_upd) simp
    obtain s1 e2 where a2: "math2_new_sequence ?e1' = (s1, e2)" by fastforce
    let ?e3 = "e2\<lparr> nodes := upd (nodes e2) n (\<lambda>x. x\<lparr> func_arg := s1 \<rparr>) \<rparr>"
    have k2: "live_part_kept expr e2"
      using k1' live_part_kept_new_sequence[OF a2]
      by (rule live_part_kept_trans)
    have k3: "live_part_kept expr ?e3" by (rule live_part_kept_upd[OF k2 fr])
    have fail: "s1 = None"
    proof (rule ccontr)
      assume "s1 \<noteq> None"
      then obtain b1 where s: "s1 = Some b1" by auto
      from new_sequence_some(3)[OF a2[unfolded s]] c1 c1' assms
      show False by simp
    qed
    have "math2_insert_function expr name = ?e3"
      using fail by (simp add: math2_insert_function_def a1 a2 Let_def)
    with k3 show ?thesis by simp
  qed
qed

lemma math2_insert_abs_noop:
  assumes "empty_slots expr < 2"
  shows "live_part_kept expr (math2_insert_abs expr)"
proof -
  obtain r1 e1 where a1: "math2_alloc_node expr NODE_ABS = (r1, e1)" by fastforce
  show ?thesis
  proof (cases r1)
    case None
    with a1 have "math2_insert_abs expr = expr" by (simp add: math2_insert_abs_def)
    then show ?thesis by (simp add: live_part_kept_refl)
  next
    case (Some n)
    note a1 = a1[unfolded Some]
    have fr: "type (nodes expr n) = NODE_EMPTY" by (rule alloc_fresh[OF a1])
    have c1: "empty_slots expr = Suc (empty_slots e1)" by (rule alloc_count[OF a1]) simp
    let ?e1' = "e1"
    obtain s1 e2 where a2: "math2_new_sequence ?e1' = (s1, e2)" by fastforce
    let ?e3 = "e2\<lparr> nodes := upd (nodes e2) n (\<lambda>x. x\<lparr> abs_content := s1 \<rparr>) \<rparr>"
    have k2: "live_part_kept expr e2"
      using live_part_kept_alloc[OF a1] live_part_kept_new_sequence[OF a2]
      by (rule live_part_kept_trans)
    have k3: "live_part_kept expr ?e3" by (rule live_part_kept_upd[OF k2 fr])
    have fail: "s1 = None"
    proof (rule ccontr)
      assume "s1 \<noteq> None"
      then obtain b1 where s: "s1 = Some b1" by auto
      from new_sequence_some(3)[OF a2[unfolded s]] c1 assms
      show False by simp
    qed
    have "math2_insert_abs expr = ?e3"
      using fail by (simp add: math2_insert_abs_def a1 a2 Let_def)
    with k3 show ?thesis by simp
  qed
qed

lemma math2_insert_paren_noop:
  assumes "empty_slots expr < 2"
  shows "live_part_kept expr (math2_insert_paren expr)"
proof -
  obtain r1 e1 where a1: "math2_alloc_node expr NODE_PAREN = (r1, e1)" by fastforce
  show ?thesis
  proof (cases r1)
    case None
    with a1 have "math2_insert_paren expr = expr" by (simp add: math2_insert_paren_def)
    then show ?thesis by (simp add: live_part_kept_refl)
  next
    case (Some n)
    note a1 = a1[unfolded Some]
    have fr: "type (nodes expr n) = NODE_EMPTY" by (rule alloc_fresh[OF a1])
    have c1: "empty_slots expr = Suc (empty_slots e1)" by (rule alloc_count[OF a1]) simp
    let ?e1' = "e1"
    obtain s1 e2 where a2: "math2_new_sequence ?e1' = (s1, e2)" by fastforce
    let ?e3 = "e2\<lparr> nodes := upd (nodes e2) n (\<lambda>x. x\<lparr> paren_content := s1 \<rparr>) \<rparr>"
    have k2: "live_part_kept expr e2"
      using live_part_kept_alloc[OF a1] live_part_kept_new_sequence[OF a2]
      by (rule live_part_kept_trans)
    have k3: "live_part_kept expr ?e3" by (rule live_part_kept_upd[OF k2 fr])
    have fail: "s1 = None"
    proof (rule ccontr)
      assume "s1 \<noteq> None"
      then obtain b1 where s: "s1 = Some b1" by auto
      from new_sequence_some(3)[OF a2[unfolded s]] c1 assms
      show False by simp
    qed
    have "math2_insert_paren expr = ?e3"
      using fail by (simp add: math2_insert_paren_def a1 a2 Let_def)
    with k3 show ?thesis by simp
  qed
qed


lemma math2_insert_mixed_frac_noop:
  assumes "empty_slots expr < 4"
  shows "live_part_kept expr (math2_insert_mixed_frac expr)"
proof -
  obtain r1 e1 where a1: "math2_alloc_node expr NODE_MIXED_FRAC = (r1, e1)" by fastforce
  show ?thesis
  proof (cases r1)
    case None
    with a1 have "math2_insert_mixed_frac expr = expr" by (simp add: math2_insert_mixed_frac_def)
    then show ?thesis by (simp add: live_part_kept_refl)
  next
    case (Some n)
    note a1 = a1[unfolded Some]
    have fr: "type (nodes expr n) = NODE_EMPTY" by (rule alloc_fresh[OF a1])
    have c1: "empty_slots expr = Suc (empty_slots e1)" by (rule alloc_count[OF a1]) simp
    obtain s1 e2 where a2: "math2_new_sequence e1 = (s1, e2)" by fastforce
    let ?e3 = "e2\<lparr> nodes := upd (nodes e2) n (\<lambda>x. x\<lparr> mixed_whole := s1 \<rparr>) \<rparr>"
    obtain s2 e4 where a3: "math2_new_sequence ?e3 = (s2, e4)" by fastforce
    let ?e5 = "e4\<lparr> nodes := upd (nodes e4) n (\<lambda>x. x\<lparr> mixed_numer := s2 \<rparr>) \<rparr>"
    obtain s3 e6 where a4: "math2_new_sequence ?e5 = (s3, e6)" by fastforce
    let ?e7 = "e6\<lparr> nodes := upd (nodes e6) n (\<lambda>x. x\<lparr> mixed_denom := s3 \<rparr>) \<rparr>"
    have k2: "live_part_kept expr e2"
      using live_part_kept_alloc[OF a1] live_part_kept_new_sequence[OF a2]
      by (rule live_part_kept_trans)
    have k3: "live_part_kept expr ?e3" by (rule live_part_kept_upd[OF k2 fr])
    have k4: "live_part_kept expr e4"
      using k3 live_part_kept_new_sequence[OF a3] by (rule live_part_kept_trans)
    have k5: "live_part_kept expr ?e5" by (rule live_part_kept_upd[OF k4 fr])
    have k6: "live_part_kept expr e6"
      using k5 live_part_kept_new_sequence[OF a4] by (rule live_part_kept_trans)
    have k7: "live_part_kept expr ?e7" by (rule live_part_kept_upd[OF k6 fr])
    have c3: "empty_slots ?e3 = empty_slots e2" by (rule empty_slots_upd) simp
    have c5: "empty_slots ?e5 = empty_slots e4" by (rule empty_slots_upd) simp
    have fail: "s1 = None \<or> s2 = None \<or> s3 = None"
    proof (rule ccontr)
      assume "\<not> (s1 = None \<or> s2 = None \<or> s3 = None)"
      then obtain b1 b2 b3 where s: "s1 = Some b1" "s2 = Some b2" "s3 = Some b3" by auto
      from new_sequence_some(3)[OF a2[unfolded s]] new_sequence_some(3)[OF a3[unfolded s]]
        new_sequence_some(3)[OF a4[unfolded s]] c1 c3 c5 assms s
      show False by simp
    qed
    have "math2_insert_mixed_frac expr = ?e7"
      using fail a2 a3 a4
      by (cases s1; cases s2; cases s3) (simp_all add: math2_insert_mixed_frac_def a1 Let_def)
    with k7 show ?thesis by simp
  qed
qed

lemma insert_op_noop:
  assumes "empty_slots expr < allocations op"
  shows "\<exists>e'. insert_op op expr = Some e' \<and> live_part_kept expr e'"
  using assms
  by (cases op)
     (simp_all add: math2_insert_text_noop math2_insert_fraction_noop math2_insert_exponent_noop
        math2_insert_subscript_noop math2_insert_nthroot_noop math2_insert_xthroot_noop
        math2_insert_mixed_frac_noop math2_insert_abs_noop math2_insert_paren_noop
        math2_insert_function_noop)

lemma reach_kept:
  assumes "\<forall>n\<in>reach h r. h' n = h n"
  shows "reach h' r = reach h r"
proof
  show "reach h' r \<subseteq> reach h r"
  proof
    fix n assume "n \<in> reach h' r"
    then show "n \<in> reach h r"
    proof (induction rule: reach.induct)
      case (start n)
      then show ?case by (rule reach.start)
    next
      case (step n m)
      with assms have "h' n = h n" by blast
      with step show ?case by (auto intro: reach.step)
    qed
  qed
  show "reach h r \<subseteq> reach h' r"
  proof
    fix n assume "n \<in> reach h r"
    then show "n \<in> reach h' r"
    proof (induction rule: reach.induct)
      case (start n)
      then show ?case by (rule reach.start)
    next
      case (step n m)
      with assms have "h' n = h n" by blast
      with step show ?case by (auto intro: reach.step)
    qed
  qed
qed

text \<open>
  The pool with one empty slot: the nodes reachable from its root are the 255 live ones.
\<close>

lemma one_slot_left_empty: "empty_slots one_slot_left = 1"
proof -
  have "{i. i < MAX_NODES \<and> type (nodes one_slot_left i) = NODE_EMPTY} = {255}"
    by (auto simp: one_slot_left_def MAX_NODES_def zero_node_def)
  then show ?thesis by (simp only: empty_slots_card) simp
qed

lemma one_slot_left_reach: "n \<in> reach (nodes one_slot_left) (root one_slot_left) \<Longrightarrow> n < 255"
proof (induction rule: reach.induct)
  case (start n)
  then show ?case by (simp add: one_slot_left_def)
next
  case (step n m)
  then show ?case
    by (auto simp: one_slot_left_def node_ptrs_def zero_node_def split: if_splits)
qed

lemma one_slot_left_live:
  "\<forall>n\<in>reach (nodes one_slot_left) (root one_slot_left). type (nodes one_slot_left n) \<noteq> NODE_EMPTY"
proof
  fix n assume "n \<in> reach (nodes one_slot_left) (root one_slot_left)"
  then have "n < 255" by (rule one_slot_left_reach)
  then show "type (nodes one_slot_left n) \<noteq> NODE_EMPTY"
    by (simp add: one_slot_left_def zero_node_def)
qed

text \<open>
  A fraction inserted there takes the last slot for the fraction node and finds none for
  its numerator: the insertion returns without touching the tree, and the fraction node
  stays allocated, unreachable from the root.
\<close>

lemma one_slot_left_fraction:
  "math2_insert_fraction one_slot_left =
     Some (one_slot_left\<lparr> nodes := (nodes one_slot_left)(255 := zero_node\<lparr> type := NODE_FRACTION \<rparr>),
                          next_free := 0 \<rparr>)"
proof -
  let ?e1 = "one_slot_left\<lparr> nodes := (nodes one_slot_left)(255 := zero_node\<lparr> type := NODE_FRACTION \<rparr>),
                          next_free := 0 \<rparr>"
  have a1: "math2_alloc_node one_slot_left NODE_FRACTION = (Some 255, ?e1)"
    by (subst alloc_at_next_free) (simp_all add: one_slot_left_def MAX_NODES_def zero_node_def)
  have full: "\<forall>j<MAX_NODES. type (nodes e j) \<noteq> NODE_EMPTY"
    if "nodes e = nodes ?e1" for e
    using that by (simp add: one_slot_left_def MAX_NODES_def zero_node_def)
  have a2: "math2_new_sequence e = (None, e)" if "nodes e = nodes ?e1" for e
    using full[OF that] by (simp add: math2_new_sequence_def alloc_none[THEN iffD2])
  have u: "e\<lparr> nodes := upd (nodes e) 255 (\<lambda>x. x\<lparr> frac_numer := None \<rparr>) \<rparr> = e"
          "e\<lparr> nodes := upd (nodes e) 255 (\<lambda>x. x\<lparr> frac_denom := None \<rparr>) \<rparr> = e"
    if "nodes e = nodes ?e1" for e
    using that by (simp_all add: upd_def fun_eq_iff zero_node_def)
  have n: "nodes ?e1 = nodes ?e1" by simp
  show ?thesis
    unfolding math2_insert_fraction_def a1
    by (simp only: prod.case option.case Let_def a2[OF n] u[OF n])
qed

text \<open>
  Claim C4. For each of the ten insertion operations, when the pool has fewer empty slots
  than the operation allocates (so that one of its allocations fails), the operation
  returns with the cursor, the root, the mode flags and every live node as they were;
  when the nodes reachable from the root are all live, the set of reachable nodes and
  the content and links of each of them are exactly as before the call.
\<close>

theorem insertion_noop_on_exhaustion:
  "empty_slots expr < allocations op \<longrightarrow>
     (\<exists>e'. insert_op op expr = Some e'
        \<and> cursor e' = cursor expr \<and> root e' = root expr
        \<and> shift_mode e' = shift_mode expr \<and> alpha_mode e' = alpha_mode expr
        \<and> latex e' = latex expr
        \<and> (\<forall>i. type (nodes expr i) \<noteq> NODE_EMPTY \<longrightarrow> nodes e' i = nodes expr i)
        \<and> ((\<forall>n\<in>reach (nodes expr) (root expr). type (nodes expr n) \<noteq> NODE_EMPTY) \<longrightarrow>
             reach (nodes e') (root e') = reach (nodes expr) (root expr)
             \<and> (\<forall>n\<in>reach (nodes expr) (root expr). nodes e' n = nodes expr n)))"
proof
  assume "empty_slots expr < allocations op"
  from insert_op_noop[OF this] obtain e' where
    r: "insert_op op expr = Some e'" and k: "live_part_kept expr e'"
    by blast
  have "reach (nodes e') (root e') = reach (nodes expr) (root expr)
        \<and> (\<forall>n\<in>reach (nodes expr) (root expr). nodes e' n = nodes expr n)"
    if live: "\<forall>n\<in>reach (nodes expr) (root expr). type (nodes expr n) \<noteq> NODE_EMPTY"
  proof -
    from live k have same: "\<forall>n\<in>reach (nodes expr) (root expr). nodes e' n = nodes expr n"
      by (simp add: live_part_kept_def)
    from reach_kept[OF same] k same show ?thesis
      by (simp add: live_part_kept_def)
  qed
  with r k show "\<exists>e'. insert_op op expr = Some e'
        \<and> cursor e' = cursor expr \<and> root e' = root expr
        \<and> shift_mode e' = shift_mode expr \<and> alpha_mode e' = alpha_mode expr
        \<and> latex e' = latex expr
        \<and> (\<forall>i. type (nodes expr i) \<noteq> NODE_EMPTY \<longrightarrow> nodes e' i = nodes expr i)
        \<and> ((\<forall>n\<in>reach (nodes expr) (root expr). type (nodes expr n) \<noteq> NODE_EMPTY) \<longrightarrow>
             reach (nodes e') (root e') = reach (nodes expr) (root expr)
             \<and> (\<forall>n\<in>reach (nodes expr) (root expr). nodes e' n = nodes expr n))"
    by (auto simp: live_part_kept_def)
qed

theorem insertion_noop_on_exhaustion_witness:
  "empty_slots one_slot_left < allocations InsFraction
   \<and> (\<exists>e'. insert_op InsFraction one_slot_left = Some e'
        \<and> cursor e' = cursor one_slot_left \<and> root e' = root one_slot_left
        \<and> reach (nodes e') (root e') = reach (nodes one_slot_left) (root one_slot_left)
        \<and> nodes e' 0 = nodes one_slot_left 0 \<and> nodes e' 254 = nodes one_slot_left 254)"
proof -
  have lt: "empty_slots one_slot_left < allocations InsFraction"
    by (simp add: one_slot_left_empty)
  have l0: "type (nodes one_slot_left 0) \<noteq> NODE_EMPTY" "type (nodes one_slot_left 254) \<noteq> NODE_EMPTY"
    by (simp_all add: one_slot_left_def zero_node_def)
  from insertion_noop_on_exhaustion[of one_slot_left InsFraction] lt one_slot_left_live l0
  show ?thesis by blast
qed


subsection \<open>LaTeX output and the size of the buffer\<close>

lemma nested_arcsin_0: "math2_init = nested_arcsin 0"
  by (simp add: nested_arcsin_def run_defs fun_eq_iff)

lemma nested_arcsin_step:
  assumes "k < 127"
  shows "math2_insert_function (nested_arcsin k) ''arcsin'' = nested_arcsin (Suc k)"
proof -
  let ?e = "nested_arcsin k"
  let ?f = "2 * k + 1"
  let ?e1 = "?e\<lparr> nodes := (nodes ?e)(?f := zero_node\<lparr> type := NODE_FUNCTION \<rparr>),
                   next_free := 2 * k + 2 \<rparr>"
  have nf: "next_free ?e mod MAX_NODES = ?f"
    using assms by (simp add: nested_arcsin_def MAX_NODES_def)
  have a1: "math2_alloc_node ?e NODE_FUNCTION = (Some ?f, ?e1)"
    using assms
    by (subst alloc_at_next_free) (simp_all add: nf, simp_all add: nested_arcsin_def zero_node_def MAX_NODES_def)
  let ?e2 = "?e1\<lparr> nodes := upd (nodes ?e1) ?f (\<lambda>x. x\<lparr> func_name := take 7 ''arcsin'' \<rparr>) \<rparr>"
  let ?e3 = "?e2\<lparr> nodes := (nodes ?e2)(2 * k + 2 := zero_node\<lparr> type := NODE_SEQUENCE \<rparr>),
                   next_free := (2 * k + 3) mod MAX_NODES \<rparr>"
  have a2: "math2_alloc_node ?e2 NODE_SEQUENCE = (Some (2 * k + 2), ?e3)"
    using assms
    by (subst alloc_at_next_free) (simp_all add: nested_arcsin_def zero_node_def MAX_NODES_def upd_def)
  have "math2_insert_function ?e ''arcsin'' =
          math2_clear_modes
            (?e3\<lparr> nodes := seq_insert_after
                     (upd (upd (upd (nodes ?e3) (2 * k + 2)
                                  (\<lambda>n. n\<lparr> seq_first := None, seq_last := None \<rparr>))
                             ?f (\<lambda>x. x\<lparr> func_arg := Some (2 * k + 2) \<rparr>))
                          (2 * k + 2) (\<lambda>x. x\<lparr> parent := Some ?f \<rparr>))
                     (Some (2 * k)) None (Some ?f),
                  cursor := \<lparr> sequence = Some (2 * k + 2), after = None \<rparr> \<rparr>)"
    unfolding math2_insert_function_def a1
    by (simp only: prod.case option.case Let_def math2_new_sequence_def a2)
       (simp add: nested_arcsin_def seq_insert_after_def upd_def)
  also have "\<dots> = nested_arcsin (Suc k)"
    using assms
    by (auto simp: nested_arcsin_def fun_eq_iff zero_node_def MAX_NODES_def
          seq_insert_after_def math2_clear_modes_def upd_def Let_def)
  finally show ?thesis .
qed

lemma arcsin_pressed_nested: "k \<le> 127 \<Longrightarrow> arcsin_pressed k = nested_arcsin k"
proof (induction k)
  case 0
  then show ?case by (simp add: arcsin_pressed_def nested_arcsin_0)
next
  case (Suc k)
  then show ?case by (simp add: arcsin_pressed_def nested_arcsin_step)
qed

lemma latex_function_node:
  assumes "type (h n) = NODE_FUNCTION"
  shows "latex_node (Suc f) h (Some n) buf =
           (case latex_sequence f h (func_arg (h n))
                   (buf @ [bsl] @ func_name (h n) @ (bsl # ''left('')) of
              None \<Rightarrow> None
            | Some b \<Rightarrow> Some (b @ (bsl # ''right)'')))"
  using assms by (simp add: latex_steps_def split: option.splits)

lemma nested_arcsin_latex:
  "j + d = k \<Longrightarrow> 2 * d \<le> fuel \<Longrightarrow>
   latex_sequence fuel (nodes (nested_arcsin k)) (Some (2 * j)) buf = Some (buf @ arcsin_text d)"
proof (induction d arbitrary: j fuel buf)
  case 0
  then show ?case by (simp add: nested_arcsin_def)
next
  case (Suc d)
  let ?h = "nodes (nested_arcsin k)"
  define s where "s = 2 * j"
  define n where "n = 2 * j + 1"
  define a where "a = 2 * Suc j"
  define f where "f = fuel - 2"
  from Suc.prems have f: "fuel = Suc (Suc f)" "2 * d \<le> f"
    by (simp_all add: f_def)
  from Suc.prems have j: "Suc j + d = k" by simp
  have seq: "type (?h s) = NODE_SEQUENCE" "seq_first (?h s) = Some n"
    using Suc.prems by (simp_all add: nested_arcsin_def s_def n_def)
  have fn: "type (?h n) = NODE_FUNCTION" "func_name (?h n) = ''arcsin''"
           "func_arg (?h n) = Some a" "next (?h n) = None"
    using Suc.prems by (simp_all add: nested_arcsin_def zero_node_def n_def a_def)
  have inner: "latex_sequence f ?h (Some a) b = Some (b @ arcsin_text d)" for b
    unfolding a_def by (rule Suc.IH[OF j f(2)])
  have node: "latex_node (Suc f) ?h (Some n) buf = Some (buf @ arcsin_text (Suc d))"
    by (simp only: latex_function_node[of ?h n, OF fn(1)] fn inner option.case) simp
  have "latex_sequence fuel ?h (Some s) buf = Some (buf @ arcsin_text (Suc d))"
    unfolding f
    by (simp only: latex_sequence.simps latex_children.simps seq node option.case fn(4)) simp
  then show ?case by (simp only: s_def)
qed

text \<open>
  Claim C5. The serializer does not compare the length of its output with
  \<open>MAX_LATEX\<close>: after 52 presses of the arcsin key it appends all 1040 bytes of the
  nested calls to \<open>expr->latex\<close>, which with the terminating zero is more than the 1024
  bytes of the array. Nothing is truncated and nothing is reported.
\<close>

theorem math2_to_latex_unchecked:
  "\<exists>e'. math2_to_latex MAX_NODES (arcsin_pressed 52) = Some e'
        \<and> latex e' = arcsin_text 52
        \<and> length (latex e') = 1040
        \<and> \<not> fits_latex_buffer (latex e')"
proof -
  have len: "length (arcsin_text d) = 20 * d" for d
    by (induction d) simp_all
  have "latex_sequence MAX_NODES (nodes (nested_arcsin 52)) (Some (2 * 0)) [] = Some ([] @ arcsin_text 52)"
    by (rule nested_arcsin_latex) (simp_all add: MAX_NODES_def)
  moreover have "root (nested_arcsin 52) = Some 0" by (simp add: nested_arcsin_def)
  ultimately show ?thesis
    by (simp add: math2_to_latex_def arcsin_pressed_nested len fits_latex_buffer_def MAX_LATEX_def)
qed

end
